theory Spec2Isabelle
  imports Main "HOL-Library.Word"
begin

unbundle bit_operations_syntax

section \<open>JavaScript strings and values\<close>

text \<open>
  A JavaScript string is a sequence of UTF-16 code units; \<open>length\<close>, \<open>slice\<close>,
  \<open>startsWith\<close>, \<open>trim\<close> and the regular expression of \<open>isValidHex\<close> all work on
  code units.  \<open>js\<close> turns an ASCII literal into such a string.
\<close>

type_synonym jschar = "16 word"
type_synonym jsstring = "jschar list"

definition js :: "string \<Rightarrow> jsstring" where
  "js s = map (\<lambda>c. of_nat (of_char c)) s"

text \<open>
  A JavaScript number is an IEEE 754 double: \<open>Double neg m e\<close> is
  \<open>(if neg then - m else m) * 2 ^ e\<close>, in the one form that the format stores
  (\<open>m < 2 ^ 53\<close>; \<open>2 ^ 52 \<le> m\<close> unless \<open>e = - 1074\<close>; zero is \<open>Double neg 0 0\<close>), so
  that two numbers are the same double exactly when they are equal here.
\<close>

datatype float64 = Double bool nat int | Infinity bool | NaN

text \<open>
  The values that \<open>JSON.parse\<close> produces, and \<open>undefined\<close>, which reading a missing
  property gives.  An object keeps its members in source order.
\<close>

datatype jsvalue =
    Undefined
  | Null
  | Boolean bool
  | Number float64
  | String jsstring
  | Array "jsvalue list"
  | Object "(jsstring \<times> jsvalue) list"

text \<open>ToBoolean: zero (of either sign) and \<open>NaN\<close> are the falsy numbers.\<close>

fun truthy :: "jsvalue \<Rightarrow> bool" where
  "truthy Undefined = False"
| "truthy Null = False"
| "truthy (Boolean b) = b"
| "truthy (Number (Double neg m e)) = (m \<noteq> 0)"
| "truthy (Number (Infinity neg)) = True"
| "truthy (Number NaN) = False"
| "truthy (String s) = (s \<noteq> [])"
| "truthy (Array vs) = True"
| "truthy (Object ms) = True"

text \<open>
  Errors as values.  The source throws plain \<open>Error\<close> objects that differ in their message
  only; each constructor stands for one throw site, named after the kind of failure, and
  \<open>message\<close> gives the text the source builds there.  \<open>SyntaxError\<close> is what
  \<open>JSON.parse\<close> throws, \<open>TypeError\<close> what reading a property of \<open>null\<close> throws.
  \<open>Wrapped p e\<close> is \<open>new Error(p + e.message)\<close>, what every catch block rethrows.
\<close>

datatype error =
    FileNotFoundError jsstring
  | FileReadError jsstring
  | SyntaxError
  | TypeError
  | UnrecognizedFormatError jsstring
  | InvalidInputError
  | InvalidPrefixError
  | InvalidLengthError nat nat
  | EncodingError jsstring
  | ClientError jsstring
  | Wrapped jsstring error

type_synonym 'a result = "error + 'a"

section \<open>String operations\<close>

fun digit_char :: "nat \<Rightarrow> jschar" where
  "digit_char d = of_nat (48 + d)"

text \<open>Number to string, for a length: the decimal digits.\<close>

fun show_nat :: "nat \<Rightarrow> jsstring" where
  "show_nat n = (if n < 10 then [digit_char n] else show_nat (n div 10) @ [digit_char (n mod 10)])"

declare show_nat.simps [simp del]

text \<open>\<open>String.prototype.trim\<close> strips WhiteSpace and LineTerminator code points.\<close>

definition is_js_whitespace :: "jschar \<Rightarrow> bool" where
  "is_js_whitespace c \<longleftrightarrow>
     (0x9 \<le> c \<and> c \<le> 0xD) \<or> c = 0x20 \<or> c = 0xA0 \<or> c = 0x1680 \<or>
     (0x2000 \<le> c \<and> c \<le> 0x200A) \<or> c = 0x2028 \<or> c = 0x2029 \<or> c = 0x202F \<or>
     c = 0x205F \<or> c = 0x3000 \<or> c = 0xFEFF"

definition trim :: "jsstring \<Rightarrow> jsstring" where
  "trim s = rev (dropWhile is_js_whitespace (rev (dropWhile is_js_whitespace s)))"

definition startsWith :: "jsstring \<Rightarrow> jsstring \<Rightarrow> bool" where
  "startsWith s p \<longleftrightarrow> take (length p) s = p"

definition slice :: "jsstring \<Rightarrow> nat \<Rightarrow> jsstring" where
  "slice s n = drop n s"

definition is_hex_digit :: "jschar \<Rightarrow> bool" where
  "is_hex_digit c \<longleftrightarrow>
     (0x30 \<le> c \<and> c \<le> 0x39) \<or> (0x61 \<le> c \<and> c \<le> 0x66) \<or> (0x41 \<le> c \<and> c \<le> 0x46)"

text \<open>
  \<^verbatim>\<open>/^[0-9a-fA-F]+$/.test(hex) && hex.length % 2 === 0\<close>
\<close>

definition isValidHex :: "jsstring \<Rightarrow> bool" where
  "isValidHex hex \<longleftrightarrow> hex \<noteq> [] \<and> list_all is_hex_digit hex \<and> length hex mod 2 = 0"

section \<open>JSON.parse\<close>

text \<open>
  \<open>JSON.parse\<close> is a built-in of the language, not code of the repository; it is modelled
  after the JSON grammar of ECMA-262 and ECMA-404 as a recursive-descent parser.  The parser
  functions take the text that is left and return the value with the rest of the text.
\<close>

definition is_json_ws :: "jschar \<Rightarrow> bool" where
  "is_json_ws c \<longleftrightarrow> c = 0x20 \<or> c = 0x9 \<or> c = 0xA \<or> c = 0xD"

definition skip_ws :: "jsstring \<Rightarrow> jsstring" where
  "skip_ws cs = dropWhile is_json_ws cs"

definition is_digit :: "jschar \<Rightarrow> bool" where
  "is_digit c \<longleftrightarrow> 0x30 \<le> c \<and> c \<le> 0x39"

definition digits_value :: "jsstring \<Rightarrow> nat" where
  "digits_value ds = foldl (\<lambda>a d. 10 * a + (unat d - 48)) 0 ds"

definition hex_value :: "jschar \<Rightarrow> nat option" where
  "hex_value c =
     (if 0x30 \<le> c \<and> c \<le> 0x39 then Some (unat c - 0x30)
      else if 0x61 \<le> c \<and> c \<le> 0x66 then Some (unat c - 0x61 + 10)
      else if 0x41 \<le> c \<and> c \<le> 0x46 then Some (unat c - 0x41 + 10)
      else None)"

text \<open>
  A string, after its opening quote: up to the closing quote, with the escapes
  \<^verbatim>\<open>\" \\ \/ \b \f \n \r \t \uXXXX\<close>; a control character below U+0020 is an error.
\<close>

fun parse_string :: "jsstring \<Rightarrow> jsstring \<Rightarrow> (jsstring \<times> jsstring) option" where
  "parse_string acc [] = None"
| "parse_string acc (c # cs) =
     (if c = 0x22 then Some (acc, cs)
      else if c = 0x5C then
        (case cs of
           [] \<Rightarrow> None
         | e # cs' \<Rightarrow>
             if e = 0x22 \<or> e = 0x5C \<or> e = 0x2F then parse_string (acc @ [e]) cs'
             else if e = 0x62 then parse_string (acc @ [0x8]) cs'
             else if e = 0x66 then parse_string (acc @ [0xC]) cs'
             else if e = 0x6E then parse_string (acc @ [0xA]) cs'
             else if e = 0x72 then parse_string (acc @ [0xD]) cs'
             else if e = 0x74 then parse_string (acc @ [0x9]) cs'
             else if e = 0x75 then
               (case cs' of
                  h1 # h2 # h3 # h4 # cs'' \<Rightarrow>
                    (case (hex_value h1, hex_value h2, hex_value h3, hex_value h4) of
                       (Some a, Some b, Some c, Some d) \<Rightarrow>
                         parse_string (acc @ [of_nat (((a * 16 + b) * 16 + c) * 16 + d)]) cs''
                     | _ \<Rightarrow> None)
                | _ \<Rightarrow> None)
             else None)
      else if c < 0x20 then None
      else parse_string (acc @ [c]) cs)"

text \<open>
  The double that a decimal \<open>m * 10 ^ e\<close> denotes: the nearest one, a tie going to the
  even mantissa; a decimal beyond the largest double is an infinity, one that rounds to
  nothing is zero.  \<open>k\<close> is the binary exponent of the decimal (\<open>2 ^ k\<close> is at most the
  decimal, \<open>2 ^ (k + 1)\<close> is more), \<open>ex\<close> the exponent of the last bit that a double of
  that size keeps.
\<close>

fun bit_length :: "nat \<Rightarrow> nat" where
  "bit_length n = (if n = 0 then 0 else Suc (bit_length (n div 2)))"

declare bit_length.simps [simp del]

definition round_half_even :: "nat \<Rightarrow> nat \<Rightarrow> nat" where
  "round_half_even n d =
     (let f = n div d; r = n mod d
      in if 2 * r < d then f
         else if d < 2 * r then f + 1
         else if even f then f else f + 1)"

definition to_double :: "bool \<Rightarrow> nat \<Rightarrow> int \<Rightarrow> float64" where
  "to_double neg m e =
     (if m = 0 then Double neg 0 0
      else
        (let num = (if 0 \<le> e then m * 10 ^ nat e else m);
             den = (if 0 \<le> e then 1 else 10 ^ nat (- e));
             b = int (bit_length num) - int (bit_length den);
             k = (if (if 0 \<le> b then den * 2 ^ nat b \<le> num else den \<le> num * 2 ^ nat (- b))
                  then b else b - 1);
             ex = max (k - 52) (- 1074);
             mant = (if 0 \<le> ex then round_half_even num (den * 2 ^ nat ex)
                     else round_half_even (num * 2 ^ nat (- ex)) den);
             (mant', ex') = (if mant = 2 ^ 53 then (2 ^ 52, ex + 1) else (mant, ex))
         in if 971 < ex' then Infinity neg
            else if mant' = 0 then Double neg 0 0
            else Double neg mant' ex'))"

text \<open>
  A number: \<^verbatim>\<open>-? (0 | [1-9][0-9]*) (. [0-9]+)? ([eE] [+-]? [0-9]+)?\<close>, on text that starts
  with its first digit (the sign is read by the caller).
\<close>

definition parse_exponent :: "jsstring \<Rightarrow> (int \<times> jsstring) option" where
  "parse_exponent cs =
     (case cs of
        [] \<Rightarrow> Some (0, cs)
      | c # r \<Rightarrow>
          if c = 0x65 \<or> c = 0x45 then
            (let (neg, r') = (case r of
                                [] \<Rightarrow> (False, r)
                              | s # r'' \<Rightarrow> if s = 0x2D then (True, r'')
                                          else if s = 0x2B then (False, r'') else (False, r));
                 ds = takeWhile is_digit r'
             in if ds = [] then None
                else Some ((if neg then - int (digits_value ds) else int (digits_value ds)),
                           dropWhile is_digit r'))
          else Some (0, cs))"

definition parse_fraction :: "jsstring \<Rightarrow> (jsstring \<times> jsstring) option" where
  "parse_fraction cs =
     (case cs of
        [] \<Rightarrow> Some ([], cs)
      | c # r \<Rightarrow>
          if c = 0x2E then
            (let ds = takeWhile is_digit r
             in if ds = [] then None else Some (ds, dropWhile is_digit r))
          else Some ([], cs))"

definition parse_number :: "bool \<Rightarrow> jsstring \<Rightarrow> (jsvalue \<times> jsstring) option" where
  "parse_number neg cs =
     (case cs of
        [] \<Rightarrow> None
      | c # r \<Rightarrow>
          if \<not> is_digit c then None
          else
            (let (ip, r1) = (if c = 0x30 then ([c], r)
                             else (c # takeWhile is_digit r, dropWhile is_digit r))
             in case parse_fraction r1 of
                  None \<Rightarrow> None
                | Some (fp, r2) \<Rightarrow>
                    (case parse_exponent r2 of
                       None \<Rightarrow> None
                     | Some (ex, r3) \<Rightarrow>
                         Some (Number (to_double neg (digits_value (ip @ fp))
                                         (ex - int (length fp))), r3))))"

text \<open>
  Values, array elements and object members.  The first argument bounds the number of
  nested calls; \<open>JSON_parse\<close> starts with more than the text can use
  (lemma \<open>JSON_parse_fuel\<close>).  A later member with the same key replaces an earlier one
  when the object is read (\<open>get_member\<close>).
\<close>

datatype parsed = OutOfFuel | Failed | Parsed jsvalue jsstring

fun parse_value :: "nat \<Rightarrow> jsstring \<Rightarrow> parsed"
  and parse_elements :: "nat \<Rightarrow> jsvalue list \<Rightarrow> jsstring \<Rightarrow> parsed"
  and parse_members :: "nat \<Rightarrow> (jsstring \<times> jsvalue) list \<Rightarrow> jsstring \<Rightarrow> parsed"
where
  "parse_value 0 cs = OutOfFuel"
| "parse_value (Suc n) cs =
     (case cs of
        [] \<Rightarrow> Failed
      | c # r \<Rightarrow>
          if c = 0x7B then
            (case skip_ws r of
               [] \<Rightarrow> Failed
             | d # r' \<Rightarrow> if d = 0x7D then Parsed (Object []) r'
                         else parse_members n [] (d # r'))
          else if c = 0x5B then
            (case skip_ws r of
               [] \<Rightarrow> Failed
             | d # r' \<Rightarrow> if d = 0x5D then Parsed (Array []) r'
                         else parse_elements n [] (d # r'))
          else if c = 0x22 then
            (case parse_string [] r of
               None \<Rightarrow> Failed
             | Some (s, r') \<Rightarrow> Parsed (String s) r')
          else if c = 0x74 then
            (if take 3 r = js ''rue'' then Parsed (Boolean True) (drop 3 r) else Failed)
          else if c = 0x66 then
            (if take 4 r = js ''alse'' then Parsed (Boolean False) (drop 4 r) else Failed)
          else if c = 0x6E then
            (if take 3 r = js ''ull'' then Parsed Null (drop 3 r) else Failed)
          else
            (case (if c = 0x2D then parse_number True r else parse_number False cs) of
               None \<Rightarrow> Failed
             | Some (v, r') \<Rightarrow> Parsed v r'))"
| "parse_elements 0 acc cs = OutOfFuel"
| "parse_elements (Suc n) acc cs =
     (case parse_value n cs of
        Parsed v r \<Rightarrow>
          (case skip_ws r of
             [] \<Rightarrow> Failed
           | c # r' \<Rightarrow>
               if c = 0x2C then parse_elements n (acc @ [v]) (skip_ws r')
               else if c = 0x5D then Parsed (Array (acc @ [v])) r'
               else Failed)
      | other \<Rightarrow> other)"
| "parse_members 0 acc cs = OutOfFuel"
| "parse_members (Suc n) acc cs =
     (case cs of
        [] \<Rightarrow> Failed
      | q # r \<Rightarrow>
          if q \<noteq> 0x22 then Failed
          else
            (case parse_string [] r of
               None \<Rightarrow> Failed
             | Some (k, r1) \<Rightarrow>
                 (case skip_ws r1 of
                    [] \<Rightarrow> Failed
                  | c # r2 \<Rightarrow>
                      if c \<noteq> 0x3A then Failed
                      else
                        (case parse_value n (skip_ws r2) of
                           Parsed v r3 \<Rightarrow>
                             (case skip_ws r3 of
                                [] \<Rightarrow> Failed
                              | d # r4 \<Rightarrow>
                                  if d = 0x2C then parse_members n (acc @ [(k, v)]) (skip_ws r4)
                                  else if d = 0x7D then Parsed (Object (acc @ [(k, v)])) r4
                                  else Failed)
                         | other \<Rightarrow> other))))"

text \<open>\<open>JSON.parse(text)\<close>: one value between optional whitespace, or a \<open>SyntaxError\<close>.\<close>

definition JSON_parse :: "jsstring \<Rightarrow> jsvalue result" where
  "JSON_parse text =
     (case parse_value (2 * length text + 2) (skip_ws text) of
        Parsed v r \<Rightarrow> if skip_ws r = [] then Inr v else Inl SyntaxError
      | _ \<Rightarrow> Inl SyntaxError)"

section \<open>Reading a property, and the messages of the errors\<close>

text \<open>
  \<open>keyData.cborHex\<close> and \<open>keyData.type\<close>: reading a property of \<open>null\<close> or
  \<open>undefined\<close> throws a \<open>TypeError\<close>; an object gives its own member, the last one
  written under that name; every other value (and an object without the member) gives
  \<open>undefined\<close>, since no prototype defines \<open>cborHex\<close> or \<open>type\<close>.
\<close>

definition get_member :: "(jsstring \<times> jsvalue) list \<Rightarrow> jsstring \<Rightarrow> jsvalue" where
  "get_member ms k = (case map_of (rev ms) k of None \<Rightarrow> Undefined | Some v \<Rightarrow> v)"

fun get_property :: "jsvalue \<Rightarrow> jsstring \<Rightarrow> jsvalue result" where
  "get_property Undefined k = Inl TypeError"
| "get_property Null k = Inl TypeError"
| "get_property (Object ms) k = Inr (get_member ms k)"
| "get_property v k = Inr Undefined"

text \<open>
  The message of an error.  The texts of \<open>SyntaxError\<close> and \<open>TypeError\<close> are the
  engine's; the only catch block that receives them never reads them.
\<close>

fun message :: "error \<Rightarrow> jsstring" where
  "message (FileNotFoundError keyPath) = js ''Private key file not found at path: '' @ keyPath"
| "message (FileReadError m) = m"
| "message SyntaxError = []"
| "message TypeError = []"
| "message (UnrecognizedFormatError m) = m"
| "message InvalidInputError = js ''Invalid CBOR hex input''"
| "message InvalidPrefixError =
     js ''CBOR hex must start with '' @ [0x27] @ js ''5820'' @ [0x27] @
     js '' prefix for 32-byte private key''"
| "message (InvalidLengthError expected actual) =
     js ''Invalid private key length: expected '' @ show_nat expected @
     js '' characters, got '' @ show_nat actual"
| "message (EncodingError m) = m"
| "message (ClientError m) = m"
| "message (Wrapped p e) = p @ message e"

text \<open>
  \<^verbatim>\<open>catch (error) { throw new Error(`<prefix>${error.message}`) }\<close> around a block.
\<close>

definition rethrow :: "jsstring \<Rightarrow> 'a result \<Rightarrow> 'a result" where
  "rethrow p r = (case r of Inl e \<Rightarrow> Inl (Wrapped p e) | Inr v \<Rightarrow> Inr v)"

section \<open>The collaborators: file system, module loader, encoder, wallet client\<close>

text \<open>
  The \<open>Bech32Encoder\<close> interface of the source.  A function of a collaborator either
  returns or throws; \<open>Inl m\<close> is a throw whose message is \<open>m\<close>.  The words are the
  32-bit integers of JavaScript's bitwise operators.
\<close>

record Bech32Encoder =
  toWords :: "8 word list \<Rightarrow> jsstring + 32 word list"
  encode :: "jsstring \<Rightarrow> 32 word list \<Rightarrow> jsstring + jsstring"

typedecl LucidEvolution
typedecl UTxO

datatype Network = Mainnet | Preprod | Preview | Custom

text \<open>
  What the code reaches outside itself: \<open>existsSync\<close> and \<open>readFileSync(_, "utf8")\<close> of
  \<open>fs\<close>; the \<open>bech32\<close> export of the module that \<open>import("bech32")\<close> and
  \<open>require("bech32")\<close> load (\<open>None\<close> when the module has no such export); the wallet
  library.
\<close>

record environment =
  existsSync :: "jsstring \<Rightarrow> bool"
  readFileSync :: "jsstring \<Rightarrow> jsstring + jsstring"
  import_bech32 :: "jsstring + Bech32Encoder option"
  require_bech32 :: "jsstring + Bech32Encoder option"
  Lucid :: "jsstring \<Rightarrow> jsstring \<Rightarrow> Network \<Rightarrow> jsstring + LucidEvolution"
  fromPrivateKey :: "LucidEvolution \<Rightarrow> jsstring \<Rightarrow> jsstring + LucidEvolution"
  address :: "LucidEvolution \<Rightarrow> jsstring + jsstring"
  utxosAt :: "LucidEvolution \<Rightarrow> jsstring \<Rightarrow> jsstring + UTxO list"

section \<open>The class\<close>

datatype encoder_handle = HNull | HUndefined | HEncoder Bech32Encoder

record CardanoConfig =
  network :: Network
  blockfrostApiUrl :: jsstring
  blockfrostApiKey :: jsstring

record CardanoKeyConverter = CardanoConfig +
  bech32Encoder :: encoder_handle

definition constructor :: "CardanoConfig \<Rightarrow> CardanoKeyConverter" where
  "constructor config =
     \<lparr>network = network config,
      blockfrostApiUrl = blockfrostApiUrl config,
      blockfrostApiKey = blockfrostApiKey config,
      bech32Encoder = HNull\<rparr>"

subsection \<open>initBech32Encoder\<close>

definition handle_of :: "Bech32Encoder option \<Rightarrow> encoder_handle" where
  "handle_of x = (case x of None \<Rightarrow> HUndefined | Some e \<Rightarrow> HEncoder e)"

text \<open>The end of \<open>initBech32Encoder\<close>, after one of the two loads has assigned the field.\<close>

definition loaded :: "CardanoKeyConverter \<Rightarrow> Bech32Encoder result \<times> CardanoKeyConverter" where
  "loaded this =
     (case bech32Encoder this of
        HEncoder e \<Rightarrow> (Inr e, this)
      | _ \<Rightarrow> (Inl (EncodingError (js ''Failed to initialize bech32 encoder'')), this))"

definition initBech32Encoder ::
  "environment \<Rightarrow> CardanoKeyConverter \<Rightarrow> Bech32Encoder result \<times> CardanoKeyConverter" where
  "initBech32Encoder env this =
     (case bech32Encoder this of
        HEncoder e \<Rightarrow> (Inr e, this)
      | _ \<Rightarrow>
          (case import_bech32 env of
             Inr bech32Package \<Rightarrow> loaded (this\<lparr>bech32Encoder := handle_of bech32Package\<rparr>)
           | Inl e \<Rightarrow>
               (case require_bech32 env of
                  Inr bech32Package \<Rightarrow> loaded (this\<lparr>bech32Encoder := handle_of bech32Package\<rparr>)
                | Inl err \<Rightarrow>
                    (Inl (EncodingError (js ''Failed to load bech32 encoder: '' @ err)), this))))"

subsection \<open>readPrivateKeyFile\<close>

text \<open>The inner \<open>try\<close> block: everything it throws goes to the inner \<open>catch\<close>.\<close>

definition extract_cborHex :: "jsstring \<Rightarrow> jsvalue result" where
  "extract_cborHex fileContent =
     (case JSON_parse fileContent of
        Inl e \<Rightarrow> Inl e
      | Inr keyData \<Rightarrow>
          (case get_property keyData (js ''cborHex'') of
             Inl e \<Rightarrow> Inl e
           | Inr cborHex \<Rightarrow>
               if truthy cborHex then Inr cborHex
               else
                 (case get_property keyData (js ''type'') of
                    Inl e \<Rightarrow> Inl e
                  | Inr ty \<Rightarrow>
                      if ty = String (js ''PaymentSigningKeyShelley_ed25519'') \<and> truthy cborHex
                      then Inr cborHex
                      else
                        (case keyData of
                           String s \<Rightarrow>
                             if 0 < length s then Inr keyData
                             else Inl (UnrecognizedFormatError
                                         (js ''Unable to extract CBOR hex from JSON structure''))
                         | _ \<Rightarrow> Inl (UnrecognizedFormatError
                                       (js ''Unable to extract CBOR hex from JSON structure''))))))"

text \<open>The inner \<open>catch (jsonError)\<close> block: the error is not looked at.\<close>

definition raw_hex_fallback :: "jsstring \<Rightarrow> jsvalue result" where
  "raw_hex_fallback fileContent =
     (let trimmedContent = trim fileContent
      in if isValidHex trimmedContent then Inr (String trimmedContent)
         else Inl (UnrecognizedFormatError
                     (js ''File content is neither valid JSON nor valid hex string'')))"

definition readPrivateKeyFile :: "environment \<Rightarrow> jsstring \<Rightarrow> jsvalue result" where
  "readPrivateKeyFile env keyPath =
     rethrow (js ''Error reading private key file: '')
       (if \<not> existsSync env keyPath then Inl (FileNotFoundError keyPath)
        else
          (case readFileSync env keyPath of
             Inl m \<Rightarrow> Inl (FileReadError m)
           | Inr fileContent \<Rightarrow>
               (case extract_cborHex fileContent of
                  Inr v \<Rightarrow> Inr v
                | Inl jsonError \<Rightarrow> raw_hex_fallback fileContent)))"

subsection \<open>cborHexToLucidPrivateKey\<close>

text \<open>
  \<open>Buffer.from(rawHex, "hex")\<close> of Node.js: two hex digits give a byte, and decoding stops
  without an error at the first pair that is not two hex digits (or at a single last
  character).  The decoder looks at the low byte of a code unit only, so that U+0131
  counts as the digit 1.
\<close>

fun Buffer_from_hex :: "jsstring \<Rightarrow> 8 word list" where
  "Buffer_from_hex (a # b # cs) =
     (case (hex_value (a AND 0xFF), hex_value (b AND 0xFF)) of
        (Some x, Some y) \<Rightarrow> of_nat (x * 16 + y) # Buffer_from_hex cs
      | _ \<Rightarrow> [])"
| "Buffer_from_hex cs = []"

definition cborHexToLucidPrivateKey ::
  "environment \<Rightarrow> CardanoKeyConverter \<Rightarrow> jsvalue \<Rightarrow> jsstring result \<times> CardanoKeyConverter" where
  "cborHexToLucidPrivateKey env this cborHex =
     (let (r, this') =
        (case cborHex of
           String s \<Rightarrow>
             if \<not> truthy cborHex then (Inl InvalidInputError, this)
             else
               (let cleanHex = trim s
                in if \<not> startsWith cleanHex (js ''5820'') then (Inl InvalidPrefixError, this)
                   else
                     (let rawHex = slice cleanHex 4
                      in if length rawHex \<noteq> 64
                         then (Inl (InvalidLengthError 64 (length rawHex)), this)
                         else
                           (let bytes = Buffer_from_hex rawHex
                            in case initBech32Encoder env this of
                                 (Inl e, this') \<Rightarrow> (Inl e, this')
                               | (Inr encoder, this') \<Rightarrow>
                                   (case toWords encoder bytes of
                                      Inl m \<Rightarrow> (Inl (EncodingError m), this')
                                    | Inr words \<Rightarrow>
                                        (case encode encoder (js ''ed25519_sk'') words of
                                           Inl m \<Rightarrow> (Inl (EncodingError m), this')
                                         | Inr lucidSk \<Rightarrow> (Inr lucidSk, this'))))))
         | _ \<Rightarrow> (Inl InvalidInputError, this))
      in (rethrow (js ''Error converting CBOR hex to Lucid private key: '') r, this'))"

subsection \<open>onchainToOffchainPrivateKey and the wallet operations\<close>

definition onchainToOffchainPrivateKey ::
  "environment \<Rightarrow> CardanoKeyConverter \<Rightarrow> jsstring \<Rightarrow> jsstring result \<times> CardanoKeyConverter" where
  "onchainToOffchainPrivateKey env this keyPath =
     (let (r, this') =
        (case readPrivateKeyFile env keyPath of
           Inl e \<Rightarrow> (Inl e, this)
         | Inr cborHex \<Rightarrow> cborHexToLucidPrivateKey env this cborHex)
      in (rethrow (js ''Error converting onchain to offchain private key: '') r, this'))"

definition createLucidWithPrivateKey ::
  "environment \<Rightarrow> CardanoKeyConverter \<Rightarrow> jsstring \<Rightarrow>
     LucidEvolution result \<times> CardanoKeyConverter" where
  "createLucidWithPrivateKey env this keyPath =
     (let (r, this') =
        (case Lucid env (blockfrostApiUrl this) (blockfrostApiKey this) (network this) of
           Inl m \<Rightarrow> (Inl (ClientError m), this)
         | Inr lucid \<Rightarrow>
             (case onchainToOffchainPrivateKey env this keyPath of
                (Inl e, this') \<Rightarrow> (Inl e, this')
              | (Inr privateKey, this') \<Rightarrow>
                  (case fromPrivateKey env lucid privateKey of
                     Inl m \<Rightarrow> (Inl (ClientError m), this')
                   | Inr lucid' \<Rightarrow> (Inr lucid', this'))))
      in (rethrow (js ''Error creating Lucid instance with private key: '') r, this'))"

definition getWalletAddress ::
  "environment \<Rightarrow> CardanoKeyConverter \<Rightarrow> jsstring \<Rightarrow> jsstring result \<times> CardanoKeyConverter" where
  "getWalletAddress env this keyPath =
     (let (r, this') =
        (case createLucidWithPrivateKey env this keyPath of
           (Inl e, this') \<Rightarrow> (Inl e, this')
         | (Inr lucid, this') \<Rightarrow>
             (case address env lucid of
                Inl m \<Rightarrow> (Inl (ClientError m), this')
              | Inr a \<Rightarrow> (Inr a, this')))
      in (rethrow (js ''Error getting wallet address: '') r, this'))"

definition getWalletUtxos ::
  "environment \<Rightarrow> CardanoKeyConverter \<Rightarrow> jsstring \<Rightarrow> UTxO list result \<times> CardanoKeyConverter" where
  "getWalletUtxos env this keyPath =
     (let (r, this') =
        (case createLucidWithPrivateKey env this keyPath of
           (Inl e, this') \<Rightarrow> (Inl e, this')
         | (Inr lucid, this') \<Rightarrow>
             (case address env lucid of
                Inl m \<Rightarrow> (Inl (ClientError m), this')
              | Inr a \<Rightarrow>
                  (case utxosAt env lucid a of
                     Inl m \<Rightarrow> (Inl (ClientError m), this')
                   | Inr us \<Rightarrow> (Inr us, this'))))
      in (rethrow (js ''Error getting wallet UTXOs: '') r, this'))"

subsection \<open>CardanoUtils\<close>

definition default_config :: CardanoConfig where
  "default_config = \<lparr>network = Mainnet, blockfrostApiUrl = [], blockfrostApiKey = []\<rparr>"

definition CardanoUtils_cborHexToLucidPrivateKey :: "environment \<Rightarrow> jsvalue \<Rightarrow> jsstring result" where
  "CardanoUtils_cborHexToLucidPrivateKey env cborHex =
     (let converter = constructor default_config
      in fst (cborHexToLucidPrivateKey env converter cborHex))"

definition CardanoUtils_readPrivateKeyFile :: "environment \<Rightarrow> jsstring \<Rightarrow> jsvalue result" where
  "CardanoUtils_readPrivateKeyFile env keyPath = readPrivateKeyFile env keyPath"

section \<open>The bech32 package\<close>

text \<open>
  The encoder that the module loader finds when the dependency \<open>bech32\<close> (version 2 in
  \<open>package.json\<close>) is installed.  It is a package of its own, modelled after its
  published source: \<open>toWords\<close> is \<open>convert(bytes, 8, 5, true)\<close>, \<open>encode\<close> is the
  \<open>bech32\<close> variant (checksum constant 1) with the default limit of 90 characters.
  JavaScript's bitwise operators work on 32-bit integers, \<open>>>\<close> keeps the sign.
\<close>

definition ALPHABET :: jsstring where
  "ALPHABET = js ''qpzry9x8gf2tvdw0s3jn54khce6mua7l''"

definition charAt :: "jsstring \<Rightarrow> nat \<Rightarrow> jsstring" where
  "charAt s i = (if i < length s then [s ! i] else [])"

definition polymodStep :: "32 word \<Rightarrow> 32 word" where
  "polymodStep pre =
     (let b = signed_drop_bit 25 pre
      in push_bit 5 (pre AND 0x1ffffff) XOR
         (- (signed_drop_bit 0 b AND 1) AND 0x3b6a57b2) XOR
         (- (signed_drop_bit 1 b AND 1) AND 0x26508e6d) XOR
         (- (signed_drop_bit 2 b AND 1) AND 0x1ea119fa) XOR
         (- (signed_drop_bit 3 b AND 1) AND 0x3d4233dd) XOR
         (- (signed_drop_bit 4 b AND 1) AND 0x2a1462b3))"

text \<open>The first loop of \<open>prefixChk\<close>, which returns at a character outside 33..126.\<close>

fun prefixChk_high :: "32 word \<Rightarrow> jsstring \<Rightarrow> 32 word option" where
  "prefixChk_high chk [] = Some chk"
| "prefixChk_high chk (c # cs) =
     (if c < 33 \<or> c > 126 then None
      else prefixChk_high (polymodStep chk XOR signed_drop_bit 5 (ucast c)) cs)"

fun prefixChk_low :: "32 word \<Rightarrow> jsstring \<Rightarrow> 32 word" where
  "prefixChk_low chk [] = chk"
| "prefixChk_low chk (v # vs) = prefixChk_low (polymodStep chk XOR (ucast v AND 0x1f)) vs"

definition prefixChk :: "jsstring \<Rightarrow> jsstring + 32 word" where
  "prefixChk prefix =
     (case prefixChk_high 1 prefix of
        None \<Rightarrow> Inl (js ''Invalid prefix ('' @ prefix @ js '')'')
      | Some chk \<Rightarrow> Inr (prefixChk_low (polymodStep chk) prefix))"

text \<open>
  \<open>convert(data, 8, 5, true)\<close>: the inner \<open>while (bits >= 5)\<close>, the loop over the bytes,
  and the padding.
\<close>

function convert_while :: "32 word \<Rightarrow> nat \<Rightarrow> 32 word list \<Rightarrow> nat \<times> 32 word list" where
  "convert_while val bits result =
     (if bits \<ge> 5
      then convert_while val (bits - 5) (result @ [signed_drop_bit (bits - 5) val AND 31])
      else (bits, result))"
  by pat_completeness auto
termination
  by (relation "measure (\<lambda>(val, bits, result). bits)") auto

declare convert_while.simps [simp del]

fun convert_for :: "32 word \<Rightarrow> nat \<Rightarrow> 32 word list \<Rightarrow> 8 word list \<Rightarrow> 32 word \<times> nat \<times> 32 word list" where
  "convert_for val bits result [] = (val, bits, result)"
| "convert_for val bits result (d # ds) =
     (let val' = push_bit 8 val OR ucast d;
          (bits', result') = convert_while val' (bits + 8) result
      in convert_for val' bits' result' ds)"

definition bech32_toWords :: "8 word list \<Rightarrow> jsstring + 32 word list" where
  "bech32_toWords bytes =
     (let (val, bits, result) = convert_for 0 0 [] bytes
      in if bits > 0 then Inr (result @ [push_bit (5 - bits) val AND 31]) else Inr result)"

text \<open>The loop of \<open>encode\<close> over the words, which throws at a word of more than five bits.\<close>

fun encode_words :: "32 word \<Rightarrow> jsstring \<Rightarrow> 32 word list \<Rightarrow> (32 word \<times> jsstring) option" where
  "encode_words chk result [] = Some (chk, result)"
| "encode_words chk result (x # xs) =
     (if signed_drop_bit 5 x \<noteq> 0 then None
      else encode_words (polymodStep chk XOR x) (result @ charAt ALPHABET (unat x)) xs)"

text \<open>
  \<open>prefix.toLowerCase()\<close>, on the letters A to Z.  (A prefix with a character outside
  ASCII is refused by \<open>prefixChk\<close> unless lowering maps it into ASCII; the source passes
  the constant \<open>ed25519_sk\<close>.)
\<close>

definition toLowerCase :: "jsstring \<Rightarrow> jsstring" where
  "toLowerCase s = map (\<lambda>c. if 0x41 \<le> c \<and> c \<le> 0x5A then c + 0x20 else c) s"

definition checksum_chars :: "32 word \<Rightarrow> jsstring" where
  "checksum_chars chk =
     concat (map (\<lambda>i. charAt ALPHABET (unat (signed_drop_bit ((5 - i) * 5) chk AND 0x1f)))
               [0, 1, 2, 3, 4, 5])"

definition bech32_encode :: "jsstring \<Rightarrow> 32 word list \<Rightarrow> jsstring + jsstring" where
  "bech32_encode prefix words =
     (if length prefix + 7 + length words > 90 then Inl (js ''Exceeds length limit'')
      else
        (let prefix' = toLowerCase prefix
         in case prefixChk prefix' of
              Inl m \<Rightarrow> Inl m
            | Inr chk \<Rightarrow>
                (case encode_words chk (prefix' @ js ''1'') words of
                   None \<Rightarrow> Inl (js ''Non 5-bit word'')
                 | Some (chk', result) \<Rightarrow>
                     Inr (result @
                          checksum_chars ((polymodStep ^^ 6) chk' XOR 1)))))"

definition bech32 :: Bech32Encoder where
  "bech32 = \<lparr>toWords = bech32_toWords, encode = bech32_encode\<rparr>"

section \<open>Sequences of calls, and an example process\<close>

text \<open>
  The public operations of an instance, the instance after one of them has run to its
  end, and after a sequence of them, each in the environment of its own time.
\<close>

datatype operation =
    ReadPrivateKeyFile jsstring
  | CborHexToLucidPrivateKey jsvalue
  | OnchainToOffchainPrivateKey jsstring
  | CreateLucidWithPrivateKey jsstring
  | GetWalletAddress jsstring
  | GetWalletUtxos jsstring

fun after :: "environment \<Rightarrow> CardanoKeyConverter \<Rightarrow> operation \<Rightarrow> CardanoKeyConverter" where
  "after env this (ReadPrivateKeyFile keyPath) = this"
| "after env this (CborHexToLucidPrivateKey cborHex) =
     snd (cborHexToLucidPrivateKey env this cborHex)"
| "after env this (OnchainToOffchainPrivateKey keyPath) =
     snd (onchainToOffchainPrivateKey env this keyPath)"
| "after env this (CreateLucidWithPrivateKey keyPath) =
     snd (createLucidWithPrivateKey env this keyPath)"
| "after env this (GetWalletAddress keyPath) = snd (getWalletAddress env this keyPath)"
| "after env this (GetWalletUtxos keyPath) = snd (getWalletUtxos env this keyPath)"

fun run :: "CardanoKeyConverter \<Rightarrow> (environment \<times> operation) list \<Rightarrow> CardanoKeyConverter" where
  "run this [] = this"
| "run this ((env, op) # calls) = run (after env this op) calls"

text \<open>
  A process with the \<open>bech32\<close> package installed, one readable file and no network.
\<close>

definition single_file_env :: "jsstring \<Rightarrow> jsstring \<Rightarrow> environment" where
  "single_file_env path content =
     \<lparr>existsSync = (\<lambda>p. p = path),
      readFileSync = (\<lambda>p. if p = path then Inr content else Inl (js ''ENOENT'')),
      import_bech32 = Inr (Some bech32),
      require_bech32 = Inr (Some bech32),
      Lucid = (\<lambda>url key net. Inl (js ''offline'')),
      fromPrivateKey = (\<lambda>lucid key. Inl (js ''offline'')),
      address = (\<lambda>lucid. Inl (js ''offline'')),
      utxosAt = (\<lambda>lucid a. Inl (js ''offline''))\<rparr>"

section \<open>Notions of the specification\<close>

text \<open>
  The \<open>CborHexString\<close> invariant: after trimming, \<^verbatim>\<open>^5820[0-9a-fA-F]{64}$\<close>.
\<close>

definition is_CborHexString :: "jsstring \<Rightarrow> bool" where
  "is_CborHexString s \<longleftrightarrow>
     startsWith (trim s) (js ''5820'') \<and> length (trim s) = 68 \<and> list_all is_hex_digit (trim s)"

text \<open>
  The shapes of a parsed key file that the reader accepts: an object whose \<open>cborHex\<close>
  member is truthy, or a string that is not empty.
\<close>

fun accepted_shape :: "jsvalue \<Rightarrow> bool" where
  "accepted_shape (Object ms) = truthy (get_member ms (js ''cborHex''))"
| "accepted_shape (String s) = (s \<noteq> [])"
| "accepted_shape v = False"

fun is_Number :: "jsvalue \<Rightarrow> bool" where
  "is_Number (Number d) = True"
| "is_Number v = False"

text \<open>
  The \<open>bech32\<close> package is installed: the dynamic import finds it, or the import fails and
  \<open>require\<close> finds it.
\<close>

definition bech32_installed :: "environment \<Rightarrow> bool" where
  "bech32_installed env \<longleftrightarrow>
     import_bech32 env = Inr (Some bech32) \<or>
     (isl (import_bech32 env) \<and> require_bech32 env = Inr (Some bech32))"

section \<open>The parser has fuel enough\<close>

text \<open>
  Every parser function returns less text than it was given, so the fuel that
  \<open>JSON_parse\<close> starts with is never used up: a failure of \<open>JSON_parse\<close> is a syntax
  error of the text.
\<close>

lemma skip_ws_length: "length (skip_ws cs) \<le> length cs"
  by (simp add: skip_ws_def length_dropWhile_le)

lemma skip_ws_Cons: "skip_ws cs = c # r \<Longrightarrow> length r < length cs"
  using skip_ws_length [of cs] by simp

lemma parse_string_step:
  assumes "parse_string acc (c # cs) = Some (s, r)" and "c \<noteq> 0x22"
  shows "\<exists>acc' t. parse_string acc' t = Some (s, r) \<and> length t \<le> length cs"
proof (cases "c = 0x5C")
  case False
  then have "parse_string (acc @ [c]) cs = Some (s, r)"
    using assms by (simp split: if_splits)
  then show ?thesis by blast
next
  case True
  then obtain e cs' where cs: "cs = e # cs'"
    using assms by (cases cs) simp_all
  show ?thesis
  proof (cases "e = 0x75")
    case False
    then have "\<exists>acc'. parse_string acc' cs' = Some (s, r)"
      using assms True cs by (simp split: if_splits) blast+
    then obtain acc' where "parse_string acc' cs' = Some (s, r)" by blast
    then show ?thesis using cs by (intro exI [of _ acc'] exI [of _ cs']) simp
  next
    case u: True
    have "(case cs' of
             h1 # h2 # h3 # h4 # cs'' \<Rightarrow>
               (case (hex_value h1, hex_value h2, hex_value h3, hex_value h4) of
                  (Some a, Some b, Some c, Some d) \<Rightarrow>
                    parse_string (acc @ [of_nat (((a * 16 + b) * 16 + c) * 16 + d)]) cs''
                | _ \<Rightarrow> None)
           | _ \<Rightarrow> None) = Some (s, r)"
      using assms True cs u by simp
    then obtain h1 h2 h3 h4 cs'' acc' where "cs' = h1 # h2 # h3 # h4 # cs''"
      "parse_string acc' cs'' = Some (s, r)"
      by (auto split: list.splits option.splits)
    then show ?thesis using cs by (intro exI [of _ acc'] exI [of _ cs'']) simp
  qed
qed

lemma parse_string_consumes: "parse_string acc cs = Some (s, r) \<Longrightarrow> length r < length cs"
proof (induction "length cs" arbitrary: acc cs rule: less_induct)
  case less
  from less.prems obtain c cs' where cs: "cs = c # cs'" by (cases cs) simp_all
  show ?case
  proof (cases "c = 0x22")
    case True
    then show ?thesis using less.prems cs by simp
  next
    case False
    from parse_string_step [OF less.prems [unfolded cs] False]
    obtain acc' t where t: "parse_string acc' t = Some (s, r)" "length t \<le> length cs'"
      by blast
    then have "length t < length cs" using cs by simp
    from less.hyps [OF this t(1)] t(2) cs show ?thesis by simp
  qed
qed

lemma parse_exponent_consumes: "parse_exponent cs = Some (e, r) \<Longrightarrow> length r \<le> length cs"
  by (auto simp: parse_exponent_def Let_def le_Suc_eq
        intro: le_trans [OF length_dropWhile_le]
        split: list.splits if_splits prod.splits)

lemma parse_fraction_consumes: "parse_fraction cs = Some (f, r) \<Longrightarrow> length r \<le> length cs"
  by (auto simp: parse_fraction_def Let_def le_Suc_eq
        intro: le_trans [OF length_dropWhile_le]
        split: list.splits if_splits)

lemma parse_number_consumes: "parse_number neg cs = Some (v, r) \<Longrightarrow> length r < length cs"
proof -
  assume a: "parse_number neg cs = Some (v, r)"
  then obtain c r0 where cs: "cs = c # r0" by (cases cs) (auto simp: parse_number_def)
  define r1 where "r1 = (if c = 0x30 then r0 else dropWhile is_digit r0)"
  have r1: "length r1 \<le> length r0" by (simp add: r1_def length_dropWhile_le)
  from a cs obtain fp r2 ex where
    "parse_fraction r1 = Some (fp, r2)" "parse_exponent r2 = Some (ex, r)"
    by (auto simp: parse_number_def r1_def split: if_splits option.splits)
  then show ?thesis
    using parse_fraction_consumes [of r1 fp r2] parse_exponent_consumes [of r2 ex r] cs r1 by simp
qed

lemma parse_consumes:
  "(\<forall>cs v r. parse_value n cs = Parsed v r \<longrightarrow> length r < length cs) \<and>
   (\<forall>acc cs v r. parse_elements n acc cs = Parsed v r \<longrightarrow> length r < length cs) \<and>
   (\<forall>acc cs v r. parse_members n acc cs = Parsed v r \<longrightarrow> length r < length cs)"
proof (induction n)
  case 0
  show ?case by simp
next
  case (Suc n)
  have V: "\<And>cs v r. parse_value n cs = Parsed v r \<Longrightarrow> length r < length cs"
    and E: "\<And>acc cs v r. parse_elements n acc cs = Parsed v r \<Longrightarrow> length r < length cs"
    and M: "\<And>acc cs v r. parse_members n acc cs = Parsed v r \<Longrightarrow> length r < length cs"
    using Suc.IH by blast+
  have 1: "length r < length cs" if p: "parse_value (Suc n) cs = Parsed v r" for cs v r
  proof (cases cs)
    case Nil
    then show ?thesis using p by simp
  next
    case (Cons c r0)
    consider (obj) "c = 0x7B" | (arr) "c \<noteq> 0x7B" "c = 0x5B" | (str) "c \<noteq> 0x7B" "c \<noteq> 0x5B" "c = 0x22"
      | (lit) "c \<noteq> 0x7B" "c \<noteq> 0x5B" "c \<noteq> 0x22" "c = 0x74 \<or> c = 0x66 \<or> c = 0x6E"
      | (num) "c \<noteq> 0x7B" "c \<noteq> 0x5B" "c \<noteq> 0x22" "c \<noteq> 0x74" "c \<noteq> 0x66" "c \<noteq> 0x6E"
      by blast
    then show ?thesis
    proof cases
      case obj
      show ?thesis
      proof (cases "skip_ws r0")
        case Nil
        then show ?thesis using p Cons obj by simp
      next
        case (Cons d r')
        have l: "length r' < length r0" using Cons by (rule skip_ws_Cons)
        show ?thesis
        proof (cases "d = 0x7D")
          case True
          then show ?thesis using p \<open>cs = c # r0\<close> obj Cons l by simp
        next
          case False
          then have "parse_members n [] (d # r') = Parsed v r"
            using p \<open>cs = c # r0\<close> obj Cons by simp
          from M [OF this] show ?thesis using l \<open>cs = c # r0\<close> by simp
        qed
      qed
    next
      case arr
      show ?thesis
      proof (cases "skip_ws r0")
        case Nil
        then show ?thesis using p Cons arr by simp
      next
        case (Cons d r')
        have l: "length r' < length r0" using Cons by (rule skip_ws_Cons)
        show ?thesis
        proof (cases "d = 0x5D")
          case True
          then show ?thesis using p \<open>cs = c # r0\<close> arr Cons l by simp
        next
          case False
          then have "parse_elements n [] (d # r') = Parsed v r"
            using p \<open>cs = c # r0\<close> arr Cons by simp
          from E [OF this] show ?thesis using l \<open>cs = c # r0\<close> by simp
        qed
      qed
    next
      case str
      then obtain s where "parse_string [] r0 = Some (s, r)"
        using p Cons by (auto split: option.splits)
      from parse_string_consumes [OF this] show ?thesis using Cons by simp
    next
      case lit
      then show ?thesis using p Cons by (auto split: if_splits)
    next
      case num
      then obtain neg t where "parse_number neg t = Some (v, r)" "length t \<le> length cs"
        using p Cons by (auto split: if_splits option.splits)
      then show ?thesis using parse_number_consumes [of neg t v r] by simp
    qed
  qed
  have 2: "length r < length cs" if p: "parse_elements (Suc n) acc cs = Parsed v r" for acc cs v r
  proof -
    obtain v1 r1 where v1: "parse_value n cs = Parsed v1 r1"
      using p by (cases "parse_value n cs") simp_all
    have l1: "length r1 < length cs" using v1 by (rule V)
    obtain c r' where c: "skip_ws r1 = c # r'"
      using p v1 by (cases "skip_ws r1") simp_all
    have l2: "length r' < length r1" using c by (rule skip_ws_Cons)
    show ?thesis
    proof (cases "c = 0x2C")
      case True
      then have "parse_elements n (acc @ [v1]) (skip_ws r') = Parsed v r"
        using p v1 c by simp
      from E [OF this] show ?thesis using skip_ws_length [of r'] l1 l2 by simp
    next
      case False
      then have "r = r'" using p v1 c by (simp split: if_splits)
      then show ?thesis using l1 l2 by simp
    qed
  qed
  have 3: "length r < length cs" if p: "parse_members (Suc n) acc cs = Parsed v r" for acc cs v r
  proof -
    obtain r0 where cs: "cs = 0x22 # r0"
      using p by (cases cs) (auto split: if_splits)
    obtain k r1 where k: "parse_string [] r0 = Some (k, r1)"
      using p cs by (cases "parse_string [] r0") auto
    have l1: "length r1 < length r0" using k by (rule parse_string_consumes)
    obtain r2 where r2: "skip_ws r1 = 0x3A # r2"
      using p cs k by (cases "skip_ws r1") (auto split: if_splits)
    have l2: "length r2 < length r1" using r2 by (rule skip_ws_Cons)
    obtain v1 r3 where v1: "parse_value n (skip_ws r2) = Parsed v1 r3"
      using p cs k r2 by (cases "parse_value n (skip_ws r2)") simp_all
    have l3: "length r3 < length r2"
      using V [OF v1] skip_ws_length [of r2] by simp
    obtain d r4 where d: "skip_ws r3 = d # r4"
      using p cs k r2 v1 by (cases "skip_ws r3") simp_all
    have l4: "length r4 < length r3" using d by (rule skip_ws_Cons)
    show ?thesis
    proof (cases "d = 0x2C")
      case True
      then have "parse_members n (acc @ [(k, v1)]) (skip_ws r4) = Parsed v r"
        using p cs k r2 v1 d by simp
      from M [OF this] show ?thesis
        using skip_ws_length [of r4] l1 l2 l3 l4 cs by simp
    next
      case False
      then have "r = r4" using p cs k r2 v1 d by (simp split: if_splits)
      then show ?thesis using l1 l2 l3 l4 cs by simp
    qed
  qed
  show ?case using 1 2 3 by blast
qed


lemma parse_value_consumes: "parse_value n cs = Parsed v r \<Longrightarrow> length r < length cs"
  using parse_consumes [of n] by blast

lemma parse_fuel:
  "(\<forall>cs. 2 * length cs < n \<longrightarrow> parse_value n cs \<noteq> OutOfFuel) \<and>
   (\<forall>acc cs. 2 * length cs + 1 < n \<longrightarrow> parse_elements n acc cs \<noteq> OutOfFuel) \<and>
   (\<forall>acc cs. 2 * length cs + 1 < n \<longrightarrow> parse_members n acc cs \<noteq> OutOfFuel)"
proof (induction n)
  case 0
  show ?case by simp
next
  case (Suc n)
  have V: "\<And>cs. 2 * length cs < n \<Longrightarrow> parse_value n cs \<noteq> OutOfFuel"
    and E: "\<And>acc cs. 2 * length cs + 1 < n \<Longrightarrow> parse_elements n acc cs \<noteq> OutOfFuel"
    and M: "\<And>acc cs. 2 * length cs + 1 < n \<Longrightarrow> parse_members n acc cs \<noteq> OutOfFuel"
    using Suc.IH by blast+
  have 1: "parse_value (Suc n) cs \<noteq> OutOfFuel" if f: "2 * length cs < Suc n" for cs
  proof (cases cs)
    case Nil
    then show ?thesis by simp
  next
    case (Cons c r0)
    have inner: "parse_members n [] (d # r') \<noteq> OutOfFuel \<and> parse_elements n [] (d # r') \<noteq> OutOfFuel"
      if "skip_ws r0 = d # r'" for d r'
    proof -
      have "length (d # r') \<le> length r0" using skip_ws_length [of r0] that by simp
      then have "2 * length (d # r') + 1 < n" using f Cons by simp
      then show ?thesis using M E by blast
    qed
    show ?thesis
      using inner by (simp add: Cons split: list.splits option.splits)
  qed
  have 2: "parse_elements (Suc n) acc cs \<noteq> OutOfFuel" if f: "2 * length cs + 1 < Suc n" for acc cs
  proof (cases "parse_value n cs")
    case OutOfFuel
    then show ?thesis using V [of cs] f by simp
  next
    case Failed
    then show ?thesis by simp
  next
    case (Parsed v r)
    have l: "length r < length cs" using Parsed by (rule parse_value_consumes)
    have "parse_elements n (acc @ [v]) (skip_ws r') \<noteq> OutOfFuel" if "skip_ws r = c # r'" for c r'
    proof -
      have "length r' < length r" using that by (rule skip_ws_Cons)
      then have "2 * length (skip_ws r') + 1 < n" using skip_ws_length [of r'] l f by simp
      then show ?thesis by (rule E)
    qed
    then show ?thesis by (simp add: Parsed split: list.splits)
  qed
  have 3: "parse_members (Suc n) acc cs \<noteq> OutOfFuel" if f: "2 * length cs + 1 < Suc n" for acc cs
  proof (cases cs)
    case Nil
    then show ?thesis by simp
  next
    case (Cons q r0)
    show ?thesis
    proof (cases "q = 0x22")
      case False
      then show ?thesis using Cons by simp
    next
      case True
      show ?thesis
      proof (cases "parse_string [] r0")
        case None
        then show ?thesis using Cons True by simp
      next
        case (Some kr)
        obtain k r1 where kr: "kr = (k, r1)" by (cases kr)
        have l1: "length r1 < length r0" using Some kr parse_string_consumes by blast
        show ?thesis
        proof (cases "skip_ws r1")
          case Nil
          then show ?thesis using Cons True Some kr by simp
        next
          case c: (Cons c r2)
          have l2: "length r2 < length r1" using c by (rule skip_ws_Cons)
          show ?thesis
          proof (cases "parse_value n (skip_ws r2)")
            case OutOfFuel
            have "2 * length (skip_ws r2) < n" using skip_ws_length [of r2] l1 l2 f Cons by simp
            then show ?thesis using V OutOfFuel by blast
          next
            case Failed
            then show ?thesis using Cons True Some kr c by simp
          next
            case (Parsed v r3)
            have l3: "length r3 < length r2"
              using parse_value_consumes [OF Parsed] skip_ws_length [of r2] by simp
            have "parse_members n (acc @ [(k, v)]) (skip_ws r4) \<noteq> OutOfFuel"
              if "skip_ws r3 = d # r4" for d r4
            proof -
              have "length r4 < length r3" using that by (rule skip_ws_Cons)
              then have "2 * length (skip_ws r4) + 1 < n"
                using skip_ws_length [of r4] l1 l2 l3 f Cons by simp
              then show ?thesis by (rule M)
            qed
            then show ?thesis
              using Cons True Some kr c Parsed by (simp split: list.splits)
          qed
        qed
      qed
    qed
  qed
  show ?case using 1 2 3 by blast
qed

lemma JSON_parse_fuel: "parse_value (2 * length input + 2) (skip_ws input) \<noteq> OutOfFuel"
proof -
  have "2 * length (skip_ws input) < 2 * length input + 2"
    using skip_ws_length [of input] by simp
  then show ?thesis using parse_fuel [of "2 * length input + 2"] by blast
qed

section \<open>The state of an instance across calls\<close>

lemma initBech32Encoder_frame:
  "network (snd (initBech32Encoder env this)) = network this \<and>
   blockfrostApiUrl (snd (initBech32Encoder env this)) = blockfrostApiUrl this \<and>
   blockfrostApiKey (snd (initBech32Encoder env this)) = blockfrostApiKey this \<and>
   (bech32Encoder this = HEncoder e \<longrightarrow> bech32Encoder (snd (initBech32Encoder env this)) = HEncoder e)"
  by (auto simp: initBech32Encoder_def loaded_def split: encoder_handle.splits sum.splits)

lemma initBech32Encoder_error:
  "fst (initBech32Encoder env this) = Inl e \<Longrightarrow> \<exists>m. e = EncodingError m"
  by (auto simp: initBech32Encoder_def loaded_def split: encoder_handle.splits sum.splits)

lemma cborHexToLucidPrivateKey_invalid_input:
  "\<not> (\<exists>s. cborHex = String s \<and> s \<noteq> []) \<Longrightarrow>
   cborHexToLucidPrivateKey env this cborHex =
     (Inl (Wrapped (js ''Error converting CBOR hex to Lucid private key: '') InvalidInputError), this)"
  by (cases cborHex) (simp_all add: cborHexToLucidPrivateKey_def rethrow_def)

lemma cborHexToLucidPrivateKey_invalid_prefix:
  "s \<noteq> [] \<Longrightarrow> \<not> startsWith (trim s) (js ''5820'') \<Longrightarrow>
   cborHexToLucidPrivateKey env this (String s) =
     (Inl (Wrapped (js ''Error converting CBOR hex to Lucid private key: '') InvalidPrefixError), this)"
  by (simp add: cborHexToLucidPrivateKey_def rethrow_def)

lemma cborHexToLucidPrivateKey_invalid_length:
  "s \<noteq> [] \<Longrightarrow> startsWith (trim s) (js ''5820'') \<Longrightarrow> length (slice (trim s) 4) \<noteq> 64 \<Longrightarrow>
   cborHexToLucidPrivateKey env this (String s) =
     (Inl (Wrapped (js ''Error converting CBOR hex to Lucid private key: '')
             (InvalidLengthError 64 (length (slice (trim s) 4)))), this)"
  by (simp add: cborHexToLucidPrivateKey_def rethrow_def)

lemma cborHexToLucidPrivateKey_encoding:
  "s \<noteq> [] \<Longrightarrow> startsWith (trim s) (js ''5820'') \<Longrightarrow> length (slice (trim s) 4) = 64 \<Longrightarrow>
   cborHexToLucidPrivateKey env this (String s) =
     (case initBech32Encoder env this of
        (Inl e, this') \<Rightarrow>
          (Inl (Wrapped (js ''Error converting CBOR hex to Lucid private key: '') e), this')
      | (Inr encoder, this') \<Rightarrow>
          (case toWords encoder (Buffer_from_hex (slice (trim s) 4)) of
             Inl m \<Rightarrow>
               (Inl (Wrapped (js ''Error converting CBOR hex to Lucid private key: '')
                       (EncodingError m)), this')
           | Inr words \<Rightarrow>
               (case encode encoder (js ''ed25519_sk'') words of
                  Inl m \<Rightarrow>
                    (Inl (Wrapped (js ''Error converting CBOR hex to Lucid private key: '')
                            (EncodingError m)), this')
                | Inr lucidSk \<Rightarrow> (Inr lucidSk, this'))))"
  by (simp add: cborHexToLucidPrivateKey_def rethrow_def split: prod.splits sum.splits)

lemma cborHexToLucidPrivateKey_encoding_error:
  assumes "s \<noteq> []" "startsWith (trim s) (js ''5820'')" "length (slice (trim s) 4) = 64"
    and "fst (cborHexToLucidPrivateKey env this (String s)) = Inl e"
  shows "\<exists>m. e = Wrapped (js ''Error converting CBOR hex to Lucid private key: '') (EncodingError m)"
proof (cases "initBech32Encoder env this")
  case (Pair r this')
  show ?thesis
  proof (cases r)
    case (Inl e')
    then obtain m where "e' = EncodingError m"
      using initBech32Encoder_error [of env this e'] Pair by auto
    then show ?thesis
      using assms Pair Inl by (auto simp: cborHexToLucidPrivateKey_encoding)
  next
    case (Inr encoder)
    then show ?thesis
      using assms Pair by (auto simp: cborHexToLucidPrivateKey_encoding split: sum.splits)
  qed
qed

lemma cborHexToLucidPrivateKey_state:
  "snd (cborHexToLucidPrivateKey env this cborHex) = this \<or>
   snd (cborHexToLucidPrivateKey env this cborHex) = snd (initBech32Encoder env this)"
proof (cases "\<exists>s. cborHex = String s \<and> s \<noteq> []")
  case False
  then show ?thesis by (simp add: cborHexToLucidPrivateKey_invalid_input)
next
  case True
  then obtain s where s: "cborHex = String s" "s \<noteq> []" by auto
  show ?thesis
  proof (cases "startsWith (trim s) (js ''5820'')")
    case False
    then show ?thesis
      using s by (simp add: cborHexToLucidPrivateKey_invalid_prefix)
  next
    case True
    show ?thesis
    proof (cases "length (slice (trim s) 4) = 64")
      case False
      then show ?thesis
        using s True by (simp add: cborHexToLucidPrivateKey_invalid_length)
    next
      case len: True
      show ?thesis
        using s True len
        by (auto simp: cborHexToLucidPrivateKey_encoding split: prod.splits sum.splits)
    qed
  qed
qed

lemma cborHexToLucidPrivateKey_frame:
  "network (snd (cborHexToLucidPrivateKey env this cborHex)) = network this \<and>
   blockfrostApiUrl (snd (cborHexToLucidPrivateKey env this cborHex)) = blockfrostApiUrl this \<and>
   blockfrostApiKey (snd (cborHexToLucidPrivateKey env this cborHex)) = blockfrostApiKey this \<and>
   (bech32Encoder this = HEncoder e \<longrightarrow>
      bech32Encoder (snd (cborHexToLucidPrivateKey env this cborHex)) = HEncoder e)"
  using cborHexToLucidPrivateKey_state [of env this cborHex] initBech32Encoder_frame [of env this e]
  by auto

lemma onchainToOffchainPrivateKey_unfold:
  "onchainToOffchainPrivateKey env this keyPath =
     (case readPrivateKeyFile env keyPath of
        Inl e \<Rightarrow> (Inl (Wrapped (js ''Error converting onchain to offchain private key: '') e), this)
      | Inr cborHex \<Rightarrow>
          (rethrow (js ''Error converting onchain to offchain private key: '')
             (fst (cborHexToLucidPrivateKey env this cborHex)),
           snd (cborHexToLucidPrivateKey env this cborHex)))"
  by (simp add: onchainToOffchainPrivateKey_def rethrow_def split: prod.splits sum.splits)

lemma onchainToOffchainPrivateKey_state:
  "snd (onchainToOffchainPrivateKey env this keyPath) = this \<or>
   (\<exists>cborHex. snd (onchainToOffchainPrivateKey env this keyPath) =
      snd (cborHexToLucidPrivateKey env this cborHex))"
  by (cases "readPrivateKeyFile env keyPath") (auto simp: onchainToOffchainPrivateKey_unfold)

lemma onchainToOffchainPrivateKey_frame:
  "network (snd (onchainToOffchainPrivateKey env this keyPath)) = network this \<and>
   blockfrostApiUrl (snd (onchainToOffchainPrivateKey env this keyPath)) = blockfrostApiUrl this \<and>
   blockfrostApiKey (snd (onchainToOffchainPrivateKey env this keyPath)) = blockfrostApiKey this \<and>
   (bech32Encoder this = HEncoder e \<longrightarrow>
      bech32Encoder (snd (onchainToOffchainPrivateKey env this keyPath)) = HEncoder e)"
  using onchainToOffchainPrivateKey_state [of env this keyPath] cborHexToLucidPrivateKey_frame [of env this _ e]
  by auto

lemma createLucidWithPrivateKey_state:
  "snd (createLucidWithPrivateKey env this keyPath) = this \<or>
   snd (createLucidWithPrivateKey env this keyPath) = snd (onchainToOffchainPrivateKey env this keyPath)"
  by (auto simp: createLucidWithPrivateKey_def split: prod.splits sum.splits)

lemma getWalletAddress_state:
  "snd (getWalletAddress env this keyPath) = snd (createLucidWithPrivateKey env this keyPath)"
  by (auto simp: getWalletAddress_def split: prod.splits sum.splits)

lemma getWalletUtxos_state:
  "snd (getWalletUtxos env this keyPath) = snd (createLucidWithPrivateKey env this keyPath)"
  by (auto simp: getWalletUtxos_def split: prod.splits sum.splits)


lemma after_state:
  "after env this op = this \<or>
   (\<exists>keyPath. after env this op = snd (onchainToOffchainPrivateKey env this keyPath)) \<or>
   (\<exists>cborHex. after env this op = snd (cborHexToLucidPrivateKey env this cborHex))"
proof (cases op)
  case (CreateLucidWithPrivateKey p)
  then show ?thesis using createLucidWithPrivateKey_state [of env this p] by auto
next
  case (GetWalletAddress p)
  then show ?thesis using createLucidWithPrivateKey_state [of env this p]
    by (auto simp: getWalletAddress_state)
next
  case (GetWalletUtxos p)
  then show ?thesis using createLucidWithPrivateKey_state [of env this p]
    by (auto simp: getWalletUtxos_state)
qed auto

lemma after_frame:
  "network (after env this op) = network this \<and>
   blockfrostApiUrl (after env this op) = blockfrostApiUrl this \<and>
   blockfrostApiKey (after env this op) = blockfrostApiKey this \<and>
   (bech32Encoder this = HEncoder e \<longrightarrow> bech32Encoder (after env this op) = HEncoder e)"
  using after_state [of env this op] cborHexToLucidPrivateKey_frame [of env this _ e]
    onchainToOffchainPrivateKey_frame [of env this _ e]
  by auto

subsection \<open>The memoized encoder is the one the environment loads\<close>

lemma initBech32Encoder_unset:
  "(\<And>e. bech32Encoder this \<noteq> HEncoder e) \<Longrightarrow>
   fst (initBech32Encoder env this) = fst (initBech32Encoder env (constructor config))"
  by (cases "bech32Encoder this")
     (auto simp: initBech32Encoder_def loaded_def constructor_def handle_of_def
           split: sum.splits option.splits)

lemma initBech32Encoder_set:
  "bech32Encoder (snd (initBech32Encoder env this)) = HEncoder e \<Longrightarrow>
   fst (initBech32Encoder env this) = Inr e"
  by (cases "bech32Encoder this")
     (auto simp: initBech32Encoder_def loaded_def handle_of_def
           split: sum.splits option.splits)

lemma initBech32Encoder_consistent_result:
  assumes "\<And>e. bech32Encoder this = HEncoder e \<Longrightarrow>
             fst (initBech32Encoder env (constructor config)) = Inr e"
  shows "fst (initBech32Encoder env this) = fst (initBech32Encoder env (constructor config))"
proof (cases "\<exists>e. bech32Encoder this = HEncoder e")
  case True
  then obtain e where e: "bech32Encoder this = HEncoder e" by auto
  then have "fst (initBech32Encoder env this) = Inr e"
    by (simp add: initBech32Encoder_def)
  then show ?thesis using assms [OF e] by simp
next
  case False
  then show ?thesis using initBech32Encoder_unset [of this env config] by auto
qed

lemma cborHexToLucidPrivateKey_consistent:
  assumes c: "\<And>e. bech32Encoder this = HEncoder e \<Longrightarrow>
             fst (initBech32Encoder env (constructor config)) = Inr e"
    and e: "bech32Encoder (snd (cborHexToLucidPrivateKey env this cborHex)) = HEncoder e"
  shows "fst (initBech32Encoder env (constructor config)) = Inr e"
proof -
  consider "snd (cborHexToLucidPrivateKey env this cborHex) = this"
    | "snd (cborHexToLucidPrivateKey env this cborHex) = snd (initBech32Encoder env this)"
    using cborHexToLucidPrivateKey_state [of env this cborHex] by blast
  then show ?thesis
  proof cases
    case 1
    then show ?thesis using c e by simp
  next
    case 2
    then have "fst (initBech32Encoder env this) = Inr e"
      using e by (simp add: initBech32Encoder_set)
    then show ?thesis
      using initBech32Encoder_consistent_result [of this env config, OF c] by simp
  qed
qed

lemma onchainToOffchainPrivateKey_consistent:
  assumes c: "\<And>e. bech32Encoder this = HEncoder e \<Longrightarrow>
             fst (initBech32Encoder env (constructor config)) = Inr e"
    and e: "bech32Encoder (snd (onchainToOffchainPrivateKey env this keyPath)) = HEncoder e"
  shows "fst (initBech32Encoder env (constructor config)) = Inr e"
proof -
  consider "snd (onchainToOffchainPrivateKey env this keyPath) = this"
    | cborHex where "snd (onchainToOffchainPrivateKey env this keyPath) =
        snd (cborHexToLucidPrivateKey env this cborHex)"
    using onchainToOffchainPrivateKey_state [of env this keyPath] by blast
  then show ?thesis
  proof cases
    case 1
    then show ?thesis using c e by simp
  next
    case 2
    then show ?thesis
      using cborHexToLucidPrivateKey_consistent [of this env config cborHex e, OF c] e by simp
  qed
qed

lemma after_consistent:
  assumes c: "\<And>e. bech32Encoder this = HEncoder e \<Longrightarrow>
             fst (initBech32Encoder env (constructor config)) = Inr e"
    and e: "bech32Encoder (after env this op) = HEncoder e"
  shows "fst (initBech32Encoder env (constructor config)) = Inr e"
proof -
  consider "after env this op = this"
    | keyPath where "after env this op = snd (onchainToOffchainPrivateKey env this keyPath)"
    | cborHex where "after env this op = snd (cborHexToLucidPrivateKey env this cborHex)"
    using after_state [of env this op] by blast
  then show ?thesis
  proof cases
    case 1
    then show ?thesis using c e by simp
  next
    case 2
    then show ?thesis
      using onchainToOffchainPrivateKey_consistent [of this env config keyPath e, OF c] e by simp
  next
    case 3
    then show ?thesis
      using cborHexToLucidPrivateKey_consistent [of this env config cborHex e, OF c] e by simp
  qed
qed

lemma run_consistent:
  assumes "\<And>e. bech32Encoder this = HEncoder e \<Longrightarrow>
             fst (initBech32Encoder env (constructor config)) = Inr e"
    and "bech32Encoder (run this (map (Pair env) ops)) = HEncoder e"
  shows "fst (initBech32Encoder env (constructor config)) = Inr e"
  using assms
proof (induction ops arbitrary: this)
  case Nil
  then show ?case by simp
next
  case (Cons op ops)
  show ?case
  proof (rule Cons.IH [of "after env this op"])
    fix e' assume "bech32Encoder (after env this op) = HEncoder e'"
    with Cons.prems(1) show "fst (initBech32Encoder env (constructor config)) = Inr e'"
      by (rule after_consistent [of this env config op e'])
  next
    show "bech32Encoder (run (after env this op) (map (Pair env) ops)) = HEncoder e"
      using Cons.prems(2) by simp
  qed
qed

lemma initBech32Encoder_reached:
  "fst (initBech32Encoder env (run (constructor config) (map (Pair env) ops))) =
   fst (initBech32Encoder env (constructor default_config))"
proof (rule initBech32Encoder_consistent_result)
  fix e assume "bech32Encoder (run (constructor config) (map (Pair env) ops)) = HEncoder e"
  then show "fst (initBech32Encoder env (constructor default_config)) = Inr e"
    by (rule run_consistent [rotated]) (simp add: constructor_def)
qed

lemma cborHexToLucidPrivateKey_result:
  assumes "fst (initBech32Encoder env this1) = fst (initBech32Encoder env this2)"
  shows "fst (cborHexToLucidPrivateKey env this1 cborHex) =
         fst (cborHexToLucidPrivateKey env this2 cborHex)"
proof (cases "\<exists>s. cborHex = String s \<and> s \<noteq> []")
  case False
  then show ?thesis by (simp add: cborHexToLucidPrivateKey_invalid_input)
next
  case True
  then obtain s where s: "cborHex = String s" "s \<noteq> []" by auto
  show ?thesis
  proof (cases "startsWith (trim s) (js ''5820'')")
    case False
    then show ?thesis using s by (simp add: cborHexToLucidPrivateKey_invalid_prefix)
  next
    case sw: True
    show ?thesis
    proof (cases "length (slice (trim s) 4) = 64")
      case False
      then show ?thesis using s sw by (simp add: cborHexToLucidPrivateKey_invalid_length)
    next
      case len: True
      obtain r1 t1 where i1: "initBech32Encoder env this1 = (r1, t1)"
        by (cases "initBech32Encoder env this1")
      obtain r2 t2 where i2: "initBech32Encoder env this2 = (r2, t2)"
        by (cases "initBech32Encoder env this2")
      have r: "r1 = r2" using assms i1 i2 by simp
      have "fst (cborHexToLucidPrivateKey env this1 (String s)) =
            fst (cborHexToLucidPrivateKey env this2 (String s))"
        unfolding cborHexToLucidPrivateKey_encoding [OF s(2) sw len] i1 i2 r
        by (cases r2) (simp_all split: sum.splits)
      then show ?thesis using s(1) by simp
    qed
  qed
qed

section \<open>The bech32 encoder on the bytes of a key\<close>

lemma five_bit_mask: "signed_drop_bit 5 ((w :: 32 word) AND 31) = 0"
proof -
  have m: "(31 :: 32 word) = mask 5" by (simp add: mask_eq_exp_minus_1)
  show ?thesis
    unfolding m by (rule bit_word_eqI) (auto simp: bit_simps)
qed

lemma Buffer_from_hex_length: "length (Buffer_from_hex cs) \<le> length cs div 2"
  by (induction cs rule: Buffer_from_hex.induct) (auto split: option.splits)

lemma convert_while_result:
  "list_all (\<lambda>w. signed_drop_bit 5 w = 0) result \<Longrightarrow>
   fst (convert_while val bits result) = bits mod 5 \<and>
   length (snd (convert_while val bits result)) = length result + bits div 5 \<and>
   list_all (\<lambda>w. signed_drop_bit 5 w = 0) (snd (convert_while val bits result))"
proof (induction val bits result rule: convert_while.induct)
  case (1 val bits result)
  show ?case
  proof (cases "bits \<ge> 5")
    case True
    have "list_all (\<lambda>w. signed_drop_bit 5 w = 0)
            (result @ [signed_drop_bit (bits - 5) val AND 31])"
      using "1.prems" by (simp add: five_bit_mask)
    from "1.IH" [OF True this] True show ?thesis
      by (subst (1 2 3) convert_while.simps) (simp add: le_mod_geq le_div_geq)
  next
    case False
    then show ?thesis
      using "1.prems" by (subst (1 2 3) convert_while.simps) simp
  qed
qed

lemma convert_for_result:
  "list_all (\<lambda>w. signed_drop_bit 5 w = 0) result \<Longrightarrow> bits < 5 \<Longrightarrow>
   convert_for val bits result bytes = (val', bits', result') \<Longrightarrow>
   bits' < 5 \<and> length result' \<le> length result + 2 * length bytes \<and>
   list_all (\<lambda>w. signed_drop_bit 5 w = 0) result'"
proof (induction bytes arbitrary: val bits result)
  case Nil
  then show ?case by simp
next
  case (Cons d ds)
  let ?v = "push_bit 8 val OR ucast d"
  obtain b r where w: "convert_while ?v (bits + 8) result = (b, r)"
    by (cases "convert_while ?v (bits + 8) result")
  from convert_while_result [OF Cons.prems(1), of ?v "bits + 8"] w
  have b: "b = (bits + 8) mod 5" and lr: "length r = length result + (bits + 8) div 5"
    and fr: "list_all (\<lambda>w. signed_drop_bit 5 w = 0) r"
    by simp_all
  have b5: "b < 5" using b by simp
  have "(bits + 8) div 5 \<le> 2" using Cons.prems(2) by simp
  then have lr2: "length r \<le> length result + 2" using lr by simp
  from Cons.prems(3) w have "convert_for ?v b r ds = (val', bits', result')"
    by (simp add: Let_def)
  from Cons.IH [OF fr b5 this] lr2 show ?case by simp
qed

lemma bech32_toWords_result:
  "\<exists>words. bech32_toWords bytes = Inr words \<and> length words \<le> 2 * length bytes + 1 \<and>
     list_all (\<lambda>w. signed_drop_bit 5 w = 0) words"
proof -
  obtain v b r where c: "convert_for 0 0 [] bytes = (v, b, r)"
    by (cases "convert_for 0 0 [] bytes") auto
  from convert_for_result [OF _ _ c] have "length r \<le> 2 * length bytes"
    and "list_all (\<lambda>w. signed_drop_bit 5 w = 0) r" by simp_all
  then show ?thesis
    using c by (simp add: bech32_toWords_def five_bit_mask)
qed

lemma prefixChk_high_Some:
  "list_all (\<lambda>c. 33 \<le> c \<and> c \<le> 126) cs \<Longrightarrow> \<exists>chk'. prefixChk_high chk cs = Some chk'"
  by (induction cs arbitrary: chk) (auto simp: not_less)

lemma prefixChk_ed25519_sk: "\<exists>chk. prefixChk (js ''ed25519_sk'') = Inr chk"
proof -
  have "list_all (\<lambda>c. 33 \<le> c \<and> c \<le> 126) (js ''ed25519_sk'')"
    by (simp add: js_def)
  from prefixChk_high_Some [OF this, of 1] show ?thesis
    by (auto simp: prefixChk_def)
qed

lemma encode_words_Some:
  "list_all (\<lambda>w. signed_drop_bit 5 w = 0) words \<Longrightarrow>
   \<exists>chk' t. encode_words chk result words = Some (chk', result @ t)"
proof (induction words arbitrary: chk result)
  case Nil
  then show ?case by simp
next
  case (Cons x xs)
  then have "list_all (\<lambda>w. signed_drop_bit 5 w = 0) xs" by simp
  from Cons.IH [OF this, of "polymodStep chk XOR x" "result @ charAt ALPHABET (unat x)"]
  show ?case using Cons.prems by auto
qed

lemma toLowerCase_ed25519_sk: "toLowerCase (js ''ed25519_sk'') = js ''ed25519_sk''"
  by (simp add: toLowerCase_def js_def)

lemma bech32_encode_ed25519_sk:
  assumes "length words \<le> 73" and "list_all (\<lambda>w. signed_drop_bit 5 w = 0) words"
  shows "\<exists>t. bech32_encode (js ''ed25519_sk'') words = Inr (js ''ed25519_sk'' @ t)"
proof -
  obtain chk where chk: "prefixChk (js ''ed25519_sk'') = Inr chk"
    using prefixChk_ed25519_sk by auto
  obtain chk' t where t: "encode_words chk (js ''ed25519_sk'' @ js ''1'') words =
      Some (chk', (js ''ed25519_sk'' @ js ''1'') @ t)"
    using encode_words_Some [OF assms(2)] by blast
  have "length (js ''ed25519_sk'') = 10" by (simp add: js_def)
  then show ?thesis
    using assms(1) chk t by (simp add: bech32_encode_def toLowerCase_ed25519_sk)
qed

subsection \<open>Conversion of a tagged key succeeds\<close>

lemma bech32_installed_fresh:
  "bech32_installed env \<Longrightarrow> fst (initBech32Encoder env (constructor config)) = Inr bech32"
  by (auto simp: bech32_installed_def initBech32Encoder_def loaded_def constructor_def
        handle_of_def split: sum.splits)

lemma cborHexToLucidPrivateKey_succeeds:
  assumes init: "initBech32Encoder env this = (Inr bech32, this')"
    and s: "s \<noteq> []" "startsWith (trim s) (js ''5820'')" "length (slice (trim s) 4) = 64"
  shows "\<exists>t. cborHexToLucidPrivateKey env this (String s) = (Inr (js ''ed25519_sk'' @ t), this') \<and>
           bech32_encode (js ''ed25519_sk'')
             (projr (bech32_toWords (Buffer_from_hex (slice (trim s) 4)))) =
           Inr (js ''ed25519_sk'' @ t)"
proof -
  let ?bytes = "Buffer_from_hex (slice (trim s) 4)"
  have "length ?bytes \<le> 32"
    using Buffer_from_hex_length [of "slice (trim s) 4"] s(3) by simp
  moreover obtain words where w: "bech32_toWords ?bytes = Inr words"
    "length words \<le> 2 * length ?bytes + 1" "list_all (\<lambda>w. signed_drop_bit 5 w = 0) words"
    using bech32_toWords_result [of ?bytes] by auto
  ultimately have "length words \<le> 73" by simp
  then obtain t where "bech32_encode (js ''ed25519_sk'') words = Inr (js ''ed25519_sk'' @ t)"
    using bech32_encode_ed25519_sk w(3) by blast
  then show ?thesis
    using init s w(1) by (simp add: cborHexToLucidPrivateKey_encoding bech32_def)
qed

lemma not_whitespace_hex: "is_hex_digit c \<Longrightarrow> \<not> is_js_whitespace c"
  by (auto simp: is_hex_digit_def is_js_whitespace_def word_le_nat_alt)

lemma trim_unchanged:
  "s \<noteq> [] \<Longrightarrow> \<not> is_js_whitespace (hd s) \<Longrightarrow> \<not> is_js_whitespace (last s) \<Longrightarrow> trim s = s"
proof -
  assume a: "s \<noteq> []" "\<not> is_js_whitespace (hd s)" "\<not> is_js_whitespace (last s)"
  have 1: "dropWhile is_js_whitespace s = s"
    using a by (simp add: dropWhile_eq_self_iff)
  have 2: "dropWhile is_js_whitespace (rev s) = rev s"
    using a by (simp add: dropWhile_eq_self_iff hd_rev)
  show ?thesis by (simp add: trim_def 1 2)
qed

lemma trim_tagged_key:
  assumes "length h = 64" "list_all is_hex_digit h"
  shows "trim (js ''5820'' @ h) = js ''5820'' @ h"
proof (rule trim_unchanged)
  show "js ''5820'' @ h \<noteq> []" by (simp add: js_def)
  show "\<not> is_js_whitespace (hd (js ''5820'' @ h))"
    by (simp add: js_def is_js_whitespace_def)
  have "h \<noteq> []" using assms(1) by auto
  then have "last (js ''5820'' @ h) = last h" by simp
  moreover have "is_hex_digit (last h)"
    using assms(2) \<open>h \<noteq> []\<close> by (simp add: list_all_iff)
  ultimately show "\<not> is_js_whitespace (last (js ''5820'' @ h))"
    by (simp add: not_whitespace_hex)
qed

section \<open>The paths through the key file reader\<close>

lemma readPrivateKeyFile_content:
  "existsSync env keyPath \<Longrightarrow> readFileSync env keyPath = Inr fileContent \<Longrightarrow>
   readPrivateKeyFile env keyPath =
     rethrow (js ''Error reading private key file: '')
       (case extract_cborHex fileContent of
          Inr v \<Rightarrow> Inr v
        | Inl jsonError \<Rightarrow> raw_hex_fallback fileContent)"
  by (simp add: readPrivateKeyFile_def)

lemma readPrivateKeyFile_Inr:
  assumes "readPrivateKeyFile env keyPath = Inr v"
  shows "\<exists>fileContent. existsSync env keyPath \<and> readFileSync env keyPath = Inr fileContent \<and>
           (extract_cborHex fileContent = Inr v \<or>
            isl (extract_cborHex fileContent) \<and> raw_hex_fallback fileContent = Inr v)"
  using assms
  by (auto simp: readPrivateKeyFile_def rethrow_def split: if_splits sum.splits)

lemma extract_cborHex_Inr:
  assumes "extract_cborHex fileContent = Inr v"
  shows "\<exists>keyData. JSON_parse fileContent = Inr keyData \<and>
           ((\<exists>ms. keyData = Object ms \<and> v = get_member ms (js ''cborHex'') \<and> truthy v) \<or>
            (\<exists>s. keyData = String s \<and> s \<noteq> [] \<and> v = keyData))"
proof (cases "JSON_parse fileContent")
  case (Inl e)
  then show ?thesis using assms by (simp add: extract_cborHex_def)
next
  case (Inr keyData)
  then show ?thesis
    using assms by (cases keyData) (auto simp: extract_cborHex_def split: if_splits)
qed

lemma extract_cborHex_object:
  "JSON_parse fileContent = Inr (Object ms) \<Longrightarrow> truthy (get_member ms (js ''cborHex'')) \<Longrightarrow>
   extract_cborHex fileContent = Inr (get_member ms (js ''cborHex''))"
  by (simp add: extract_cborHex_def)

lemma extract_cborHex_not_accepted:
  "JSON_parse fileContent = Inr keyData \<Longrightarrow> \<not> accepted_shape keyData \<Longrightarrow>
   isl (extract_cborHex fileContent)"
  by (cases keyData) (auto simp: extract_cborHex_def)

lemma raw_hex_fallback_Inr:
  "raw_hex_fallback fileContent = Inr v \<Longrightarrow>
   v = String (trim fileContent) \<and> isValidHex (trim fileContent)"
  by (auto simp: raw_hex_fallback_def Let_def split: if_splits)

lemma dropWhile_keeps: "x \<in> set xs \<Longrightarrow> \<not> P x \<Longrightarrow> x \<in> set (dropWhile P xs)"
  by (induction xs) auto

lemma trim_keeps: "c \<in> set s \<Longrightarrow> \<not> is_js_whitespace c \<Longrightarrow> c \<in> set (trim s)"
  by (simp add: trim_def dropWhile_keeps)

lemma isValidHex_chars: "isValidHex (trim s) \<Longrightarrow> c \<in> set s \<Longrightarrow> is_js_whitespace c \<or> is_hex_digit c"
  using trim_keeps [of c s] by (auto simp: isValidHex_def list_all_iff)

lemma parse_number_is_Number: "parse_number neg cs = Some (v, r) \<Longrightarrow> is_Number v"
  by (auto simp: parse_number_def Let_def split: list.splits if_splits option.splits prod.splits)

lemma parse_value_first:
  assumes "parse_value n cs = Parsed v r" "\<not> is_Number v"
  shows "\<exists>c \<in> set cs. \<not> is_js_whitespace c \<and> \<not> is_hex_digit c"
proof (cases n)
  case 0
  then show ?thesis using assms by simp
next
  case (Suc m)
  show ?thesis
  proof (cases cs)
    case Nil
    then show ?thesis using assms Suc by simp
  next
    case (Cons c r0)
    consider "c = 0x7B" | "c = 0x5B" | "c = 0x22" | "c = 0x74" | "c = 0x6E"
      | "c = 0x66" "take 4 r0 = js ''alse''"
      | "c \<noteq> 0x7B" "c \<noteq> 0x5B" "c \<noteq> 0x22" "c \<noteq> 0x74" "c \<noteq> 0x6E" "c \<noteq> 0x66"
      using assms Suc Cons by (auto split: if_splits)
    then show ?thesis
    proof cases
      case 6
      have "0x6C \<in> set (take 4 r0)" unfolding 6 by (simp add: js_def)
      then have "0x6C \<in> set cs" using Cons by (auto dest: in_set_takeD)
      moreover have "\<not> is_js_whitespace (0x6C :: jschar)" "\<not> is_hex_digit (0x6C :: jschar)"
        by (simp_all add: is_js_whitespace_def is_hex_digit_def)
      ultimately show ?thesis by blast
    next
      case 7
      then have "is_Number v"
        using assms(1) Suc Cons
        by (auto split: if_splits option.splits dest: parse_number_is_Number)
      then show ?thesis using assms(2) by simp
    qed (auto simp: Cons is_js_whitespace_def is_hex_digit_def)
  qed
qed

lemma JSON_parse_not_hex:
  assumes "JSON_parse text = Inr v" "\<not> is_Number v"
  shows "\<not> isValidHex (trim text)"
proof
  assume hex: "isValidHex (trim text)"
  obtain r where "parse_value (2 * length text + 2) (skip_ws text) = Parsed v r"
    using assms(1) by (auto simp: JSON_parse_def split: parsed.splits if_splits)
  from parse_value_first [OF this assms(2)]
  obtain c where c: "c \<in> set (skip_ws text)" "\<not> is_js_whitespace c" "\<not> is_hex_digit c"
    by blast
  then have "c \<in> set text" by (auto simp: skip_ws_def dest: set_dropWhileD)
  then show False using isValidHex_chars [OF hex] c by blast
qed

subsection \<open>Values of the encoder\<close>

lemma prefixChk_high_ed25519_sk: "prefixChk_high 1 (js ''ed25519_sk'') = Some 395997664"
  by (simp add: js_def polymodStep_def)

lemma prefixChk_ed25519_sk_value: "prefixChk (js ''ed25519_sk'') = Inr 758385356"
  by (simp add: prefixChk_def prefixChk_high_ed25519_sk) (simp add: js_def polymodStep_def)

lemma funpow_six: "(f ^^ 6) x = f (f (f (f (f (f x)))))"
  by (simp add: numeral_eq_Suc)

lemma checksum_no_bytes: "(polymodStep ^^ 6) 758385356 XOR 1 = 811287072"
  by (simp add: funpow_six polymodStep_def)

lemma checksum_chars_no_bytes: "checksum_chars 811287072 = js ''c9ks3q''"
  by (simp add: checksum_chars_def charAt_def ALPHABET_def js_def)

lemma bech32_encode_no_bytes: "bech32_encode (js ''ed25519_sk'') [] = Inr (js ''ed25519_sk1c9ks3q'')"
  by (simp add: bech32_encode_def toLowerCase_ed25519_sk prefixChk_ed25519_sk_value checksum_no_bytes checksum_chars_no_bytes) (simp add: js_def)

lemma bech32_toWords_no_bytes: "bech32_toWords [] = Inr []"
  by (simp add: bech32_toWords_def)

text \<open>
  The encoder on the first test vector of the Bech32 standard (BIP 173), and on three
  bytes.
\<close>

lemma prefixChk_a: "prefixChk (js ''a'') = Inr 35841"
  by (simp add: prefixChk_def js_def polymodStep_def)

lemma checksum_a: "(polymodStep ^^ 6) 35841 XOR 1 = 365756063"
  by (simp add: funpow_six polymodStep_def)

lemma bech32_encode_test_vector: "bech32_encode (js ''a'') [] = Inr (js ''a12uel5l'')"
proof -
  have "toLowerCase (js ''a'') = js ''a''" by (simp add: toLowerCase_def js_def)
  moreover have "checksum_chars 365756063 = js ''2uel5l''"
    by (simp add: checksum_chars_def charAt_def ALPHABET_def js_def)
  ultimately show ?thesis
    by (simp add: bech32_encode_def prefixChk_a checksum_a) (simp add: js_def)
qed

lemma bech32_toWords_example: "bech32_toWords [0x00, 0x14, 0x75] = Inr [0, 0, 10, 7, 10]"
  by (simp add: bech32_toWords_def convert_while.simps)

lemma startsWith_append: "startsWith (p @ t) p"
  by (simp add: startsWith_def)

lemma tagged_key_key:
  assumes "length h = 64" and "list_all is_hex_digit h" and "bech32_installed env"
  shows "\<exists>key. fst (cborHexToLucidPrivateKey env (constructor config) (String (js ''5820'' @ h))) = Inr key"
proof -
  let ?s = "js ''5820'' @ h"
  have tr: "trim ?s = ?s" using assms(1,2) by (rule trim_tagged_key)
  have s1: "?s \<noteq> []" by (simp add: js_def)
  have s2: "startsWith (trim ?s) (js ''5820'')" unfolding tr by (simp add: startsWith_def)
  have s3: "length (slice (trim ?s) 4) = 64"
    unfolding tr using assms(1) by (simp add: slice_def js_def)
  have "fst (initBech32Encoder env (constructor config)) = Inr bech32"
    using assms(3) by (rule bech32_installed_fresh)
  then obtain this' where "initBech32Encoder env (constructor config) = (Inr bech32, this')"
    by (cases "initBech32Encoder env (constructor config)") simp
  from cborHexToLucidPrivateKey_succeeds [OF this s1 s2 s3] show ?thesis by auto
qed

section \<open>The key file reader\<close>

text \<open>
  Where the reader does what the specification says of a JSON value of no accepted shape:
  unless the value is a number, the reader fails with an \<open>UnrecognizedFormatError\<close>.
  (The error is the one of the raw-hex check: the text of such a value holds a character
  that is neither white space nor a hex digit.)
\<close>

lemma unrecognized_shape_fails:
  assumes "existsSync env keyPath" and "readFileSync env keyPath = Inr fileContent"
    and "JSON_parse fileContent = Inr keyData" and "\<not> accepted_shape keyData"
    and "\<not> is_Number keyData"
  shows "readPrivateKeyFile env keyPath =
           Inl (Wrapped (js ''Error reading private key file: '')
                  (UnrecognizedFormatError
                     (js ''File content is neither valid JSON nor valid hex string'')))"
proof -
  have "isl (extract_cborHex fileContent)"
    using assms(3,4) by (rule extract_cborHex_not_accepted)
  then have r: "readPrivateKeyFile env keyPath =
      rethrow (js ''Error reading private key file: '') (raw_hex_fallback fileContent)"
    using assms(1,2) by (auto simp: readPrivateKeyFile_content split: sum.splits)
  have "\<not> isValidHex (trim fileContent)"
    using assms(3,5) by (simp add: JSON_parse_not_hex)
  then show ?thesis by (simp add: r raw_hex_fallback_def rethrow_def)
qed

lemma unrecognized_object_fails:
  "readPrivateKeyFile (single_file_env (js ''/path/key.json'') (js ''{\"foo\":\"bar\"}''))
     (js ''/path/key.json'') =
     Inl (Wrapped (js ''Error reading private key file: '')
            (UnrecognizedFormatError
               (js ''File content is neither valid JSON nor valid hex string'')))"
proof -
  let ?env = "single_file_env (js ''/path/key.json'') (js ''{\"foo\":\"bar\"}'')"
  have 1: "existsSync ?env (js ''/path/key.json'')" by (simp add: single_file_env_def)
  have 2: "readFileSync ?env (js ''/path/key.json'') = Inr (js ''{\"foo\":\"bar\"}'')"
    by (simp add: single_file_env_def)
  have 3: "JSON_parse (js ''{\"foo\":\"bar\"}'') = Inr (Object [(js ''foo'', String (js ''bar''))])"
    by code_simp
  have 4: "\<not> accepted_shape (Object [(js ''foo'', String (js ''bar''))])"
    by code_simp
  have 5: "\<not> is_Number (Object [(js ''foo'', String (js ''bar''))])"
    by simp
  show ?thesis
    by (rule unrecognized_shape_fails [OF 1 2 3 4 5])
qed

text \<open>
  The double of a decimal, on three numbers: 12, a tie between two doubles, and a
  fraction that no double is.
\<close>

lemma bit_length_0: "bit_length 0 = 0"
  by (simp add: bit_length.simps)

lemma bit_length_step: "n \<noteq> 0 \<Longrightarrow> bit_length n = Suc (bit_length (n div 2))"
  by (subst bit_length.simps) simp

lemma to_double_12: "to_double False 12 0 = Double False 6755399441055744 (- 49)"
  by (simp add: to_double_def round_half_even_def bit_length_0 bit_length_step Let_def)

lemma to_double_tie: "to_double False 9007199254740993 0 = Double False 4503599627370496 1"
  by (simp add: to_double_def round_half_even_def bit_length_0 bit_length_step Let_def)

lemma to_double_tenth: "to_double False 1 (- 1) = Double False 7205759403792794 (- 56)"
  by (simp add: to_double_def round_half_even_def bit_length_0 bit_length_step Let_def)

text \<open>The file \<open>12\<close>, step by step.\<close>

lemma parse_number_12:
  "parse_number False (js ''12'') = Some (Number (Double False 6755399441055744 (- 49)), [])"
proof -
  have "parse_number False (js ''12'') = Some (Number (to_double False 12 0), [])"
    by (simp add: parse_number_def js_def is_digit_def parse_fraction_def parse_exponent_def
        digits_value_def)
  then show ?thesis by (simp only: to_double_12)
qed

lemma JSON_parse_12: "JSON_parse (js ''12'') = Inr (Number (Double False 6755399441055744 (- 49)))"
proof -
  have fuel: "2 * length (js ''12'') + 2 = Suc 5" by (simp add: js_def)
  have ws: "skip_ws (js ''12'') = js ''12''" "skip_ws [] = []"
    by (simp_all add: skip_ws_def js_def is_json_ws_def)
  have "parse_value (Suc 5) (js ''12'') = Parsed (Number (Double False 6755399441055744 (- 49))) []"
    unfolding parse_value.simps(2) using parse_number_12 by (simp add: js_def)
  then show ?thesis
    unfolding JSON_parse_def fuel ws(1) by (simp add: ws(2))
qed

lemma extract_cborHex_12:
  "extract_cborHex (js ''12'') =
     Inl (UnrecognizedFormatError (js ''Unable to extract CBOR hex from JSON structure''))"
  by (simp add: extract_cborHex_def JSON_parse_12)

lemma raw_hex_fallback_12: "raw_hex_fallback (js ''12'') = Inr (String (js ''12''))"
  by code_simp

text \<open>
  C1.  A file whose content is JSON of no accepted shape must fail with an
  \<open>UnrecognizedFormatError\<close> and must not be read as raw hex; the raw-hex check is for
  text that is not JSON.  The code breaks this on the file \<open>12\<close>: the text is JSON, the
  number 12, of no accepted shape, and the inner \<open>try\<close> block throws
  \<open>Unable to extract CBOR hex from JSON structure\<close> as it should.  But the \<open>throw\<close>
  stands inside the \<open>try\<close> whose \<open>catch\<close> is the raw-hex check, and that check takes the
  text \<open>12\<close> for a hex string: the reader returns \<open>"12"\<close>.
\<close>

theorem json_number_is_read_as_raw_hex:
  "JSON_parse (js ''12'') = Inr (Number (Double False 6755399441055744 (- 49))) \<and>
   \<not> accepted_shape (Number (Double False 6755399441055744 (- 49))) \<and>
   extract_cborHex (js ''12'') =
     Inl (UnrecognizedFormatError (js ''Unable to extract CBOR hex from JSON structure'')) \<and>
   readPrivateKeyFile (single_file_env (js ''/path/key.json'') (js ''12'')) (js ''/path/key.json'') =
     Inr (String (js ''12''))"
  by (simp add: JSON_parse_12 extract_cborHex_12 raw_hex_fallback_12 readPrivateKeyFile_def
      single_file_env_def rethrow_def)

text \<open>
  C3.  The claim is that every value the reader returns is a \<open>CborHexString\<close>.  The
  reader checks neither tag nor length (the encoder does).  What holds: the value is the
  truthy \<open>cborHex\<close> member of the JSON object in the file, or the JSON string in the
  file, which is not empty, or the trimmed content of the file, which is then a hex string
  of even length.
\<close>

theorem returned_value_shapes:
  assumes "readPrivateKeyFile env keyPath = Inr v"
  shows "\<exists>fileContent. existsSync env keyPath \<and> readFileSync env keyPath = Inr fileContent \<and>
           ((\<exists>ms. JSON_parse fileContent = Inr (Object ms) \<and>
                  v = get_member ms (js ''cborHex'') \<and> truthy v) \<or>
            (\<exists>s. JSON_parse fileContent = Inr (String s) \<and> s \<noteq> [] \<and> v = String s) \<or>
            (v = String (trim fileContent) \<and> isValidHex (trim fileContent)))"
proof -
  obtain fileContent where f: "existsSync env keyPath" "readFileSync env keyPath = Inr fileContent"
    and c: "extract_cborHex fileContent = Inr v \<or> raw_hex_fallback fileContent = Inr v"
    using readPrivateKeyFile_Inr [OF assms] by blast
  from c show ?thesis
  proof
    assume "extract_cborHex fileContent = Inr v"
    from extract_cborHex_Inr [OF this] show ?thesis using f by blast
  next
    assume "raw_hex_fallback fileContent = Inr v"
    from raw_hex_fallback_Inr [OF this] show ?thesis using f by blast
  qed
qed

theorem returned_value_shapes_witness:
  "readPrivateKeyFile (single_file_env (js ''/path/key.txt'') (js ''abcd'')) (js ''/path/key.txt'') =
     Inr (String (js ''abcd'')) \<and>
   (\<exists>fileContent.
      existsSync (single_file_env (js ''/path/key.txt'') (js ''abcd'')) (js ''/path/key.txt'') \<and>
      readFileSync (single_file_env (js ''/path/key.txt'') (js ''abcd'')) (js ''/path/key.txt'') =
        Inr fileContent \<and>
      ((\<exists>ms. JSON_parse fileContent = Inr (Object ms) \<and>
             String (js ''abcd'') = get_member ms (js ''cborHex'') \<and> truthy (String (js ''abcd''))) \<or>
       (\<exists>s. JSON_parse fileContent = Inr (String s) \<and> s \<noteq> [] \<and> String (js ''abcd'') = String s) \<or>
       (String (js ''abcd'') = String (trim fileContent) \<and> isValidHex (trim fileContent))))"
proof -
  have r: "readPrivateKeyFile (single_file_env (js ''/path/key.txt'') (js ''abcd''))
             (js ''/path/key.txt'') = Inr (String (js ''abcd''))"
    by code_simp
  show ?thesis
    using r returned_value_shapes [OF r] by blast
qed

text \<open>
  The file \<open>abcd\<close> is returned as it is, and is no \<open>CborHexString\<close>.
\<close>

theorem unvalidated_value_counterexample:
  "readPrivateKeyFile (single_file_env (js ''/path/key.txt'') (js ''abcd'')) (js ''/path/key.txt'') =
     Inr (String (js ''abcd'')) \<and>
   \<not> is_CborHexString (js ''abcd'')"
  by code_simp

text \<open>
  C4.  The claim is that the \<open>cborHex\<close> member of a JSON object is returned whatever it
  is.  The source tests \<open>if (keyData.cborHex)\<close>: what holds is that a truthy member is
  returned (the last one of that name), whatever the other members are, \<open>type\<close> among
  them.
\<close>

theorem cborHex_member_is_returned:
  assumes "existsSync env keyPath" and "readFileSync env keyPath = Inr fileContent"
    and "JSON_parse fileContent = Inr (Object ms)"
    and "truthy (get_member ms (js ''cborHex''))"
  shows "readPrivateKeyFile env keyPath = Inr (get_member ms (js ''cborHex''))"
  using assms
  by (simp add: readPrivateKeyFile_content extract_cborHex_object rethrow_def)

theorem cborHex_member_is_returned_witness:
  "existsSync (single_file_env (js ''/path/key.json'')
       (js ''{\"type\":\"x\",\"cborHex\":\"5820'' @ replicate 64 0x62 @ js ''\"}''))
     (js ''/path/key.json'') \<and>
   JSON_parse (js ''{\"type\":\"x\",\"cborHex\":\"5820'' @ replicate 64 0x62 @ js ''\"}'') =
     Inr (Object [(js ''type'', String (js ''x'')),
                  (js ''cborHex'', String (js ''5820'' @ replicate 64 0x62))]) \<and>
   readPrivateKeyFile (single_file_env (js ''/path/key.json'')
       (js ''{\"type\":\"x\",\"cborHex\":\"5820'' @ replicate 64 0x62 @ js ''\"}''))
     (js ''/path/key.json'') = Inr (String (js ''5820'' @ replicate 64 0x62))"
proof -
  let ?content = "js ''{\"type\":\"x\",\"cborHex\":\"5820'' @ replicate 64 0x62 @ js ''\"}''"
  let ?ms = "[(js ''type'', String (js ''x'')),
              (js ''cborHex'', String (js ''5820'' @ replicate 64 0x62))]"
  let ?env = "single_file_env (js ''/path/key.json'') ?content"
  have 1: "existsSync ?env (js ''/path/key.json'')" by (simp add: single_file_env_def)
  have 2: "readFileSync ?env (js ''/path/key.json'') = Inr ?content"
    by (simp add: single_file_env_def)
  have 3: "JSON_parse ?content = Inr (Object ?ms)" by code_simp
  have 4: "get_member ?ms (js ''cborHex'') = String (js ''5820'' @ replicate 64 0x62)"
    by code_simp
  have 5: "truthy (get_member ?ms (js ''cborHex''))" unfolding 4 by (simp add: js_def)
  show ?thesis
    using 1 3 cborHex_member_is_returned [OF 1 2 3 5] by (simp only: 4 simp_thms)
qed

text \<open>
  An empty \<open>cborHex\<close> is falsy: the reader falls through to the raw-hex check and
  fails.
\<close>

theorem empty_cborHex_counterexample:
  "JSON_parse (js ''{\"cborHex\":\"\"}'') = Inr (Object [(js ''cborHex'', String [])]) \<and>
   readPrivateKeyFile (single_file_env (js ''/path/key.json'') (js ''{\"cborHex\":\"\"}''))
     (js ''/path/key.json'') =
     Inl (Wrapped (js ''Error reading private key file: '')
            (UnrecognizedFormatError
               (js ''File content is neither valid JSON nor valid hex string'')))"
  by code_simp

text \<open>
  C8.  When the path does not exist, \<open>readPrivateKeyFile\<close> fails with the
  \<open>FileNotFoundError\<close> of that path, wrapped once by its own catch block, and the message
  of the error that the caller receives ends with the path as it was given.
\<close>

theorem readPrivateKeyFile_missing_file:
  assumes "\<not> existsSync env keyPath"
  shows "readPrivateKeyFile env keyPath =
           Inl (Wrapped (js ''Error reading private key file: '') (FileNotFoundError keyPath))
         \<and> message (Wrapped (js ''Error reading private key file: '') (FileNotFoundError keyPath)) =
           js ''Error reading private key file: Private key file not found at path: '' @ keyPath"
  using assms by (simp add: readPrivateKeyFile_def rethrow_def js_def)

theorem readPrivateKeyFile_missing_file_witness:
  "\<not> existsSync (single_file_env (js ''/path/key.json'') []) (js ''/missing.key'') \<and>
   readPrivateKeyFile (single_file_env (js ''/path/key.json'') []) (js ''/missing.key'') =
     Inl (Wrapped (js ''Error reading private key file: '')
            (FileNotFoundError (js ''/missing.key''))) \<and>
   message (Wrapped (js ''Error reading private key file: '')
              (FileNotFoundError (js ''/missing.key''))) =
     js ''Error reading private key file: Private key file not found at path: /missing.key''"
proof -
  have h: "\<not> existsSync (single_file_env (js ''/path/key.json'') []) (js ''/missing.key'')"
    by (simp add: single_file_env_def js_def)
  show ?thesis
    using h readPrivateKeyFile_missing_file [OF h] by (simp add: js_def)
qed

section \<open>The key encoder\<close>

text \<open>
  C2.  The claim is that a tagged key whose 64 characters are not all hex digits fails
  with an \<open>EncodingError\<close>.  \<open>Buffer.from(_, "hex")\<close> does not throw: it stops at the
  first pair that is not hex, and the bytes before it are encoded.  Here the pair \<open>zz\<close>
  comes first, no byte is left, and the result is the encoding of the empty key.
\<close>

theorem malformed_hex_is_encoded:
  "fst (cborHexToLucidPrivateKey (single_file_env [] []) (constructor default_config)
          (String (js ''5820zz'' @ replicate 62 0x61))) = Inr (js ''ed25519_sk1c9ks3q'')"
proof -
  let ?s = "js ''5820zz'' @ replicate 62 (0x61 :: jschar)"
  have s: "?s \<noteq> []" "startsWith (trim ?s) (js ''5820'')" "length (slice (trim ?s) 4) = 64"
    by code_simp+
  have b: "Buffer_from_hex (slice (trim ?s) 4) = []" by code_simp
  have i: "initBech32Encoder (single_file_env [] []) (constructor default_config) =
      (Inr bech32, (constructor default_config)\<lparr>bech32Encoder := HEncoder bech32\<rparr>)"
    by (simp add: initBech32Encoder_def constructor_def single_file_env_def loaded_def handle_of_def)
  show ?thesis
    by (simp add: cborHexToLucidPrivateKey_encoding [OF s] b i bech32_def
        bech32_toWords_no_bytes bech32_encode_no_bytes)
qed

text \<open>
  C5.  With the \<open>bech32\<close> package installed, the tag \<open>5820\<close> followed by 64 hex
  digits is converted to one key that begins with \<open>ed25519_sk\<close>, the same for every
  instance, whatever its configuration and whatever calls it has served before (so before
  and after the encoder was loaded).
\<close>

theorem tagged_key_is_encoded_deterministically:
  assumes "length h = 64" and "list_all is_hex_digit h" and "bech32_installed env"
  shows "\<exists>key. startsWith key (js ''ed25519_sk'') \<and>
           (\<forall>config ops.
              fst (cborHexToLucidPrivateKey env (run (constructor config) (map (Pair env) ops))
                     (String (js ''5820'' @ h))) = Inr key)"
proof -
  let ?s = "js ''5820'' @ h"
  have tr: "trim ?s = ?s" using assms(1,2) by (rule trim_tagged_key)
  have s1: "?s \<noteq> []" by (simp add: js_def)
  have s2: "startsWith (trim ?s) (js ''5820'')" unfolding tr by (rule startsWith_append)
  have s3: "length (slice (trim ?s) 4) = 64"
    unfolding tr using assms(1) by (simp add: slice_def js_def)
  have fresh: "\<And>config. fst (initBech32Encoder env (constructor config)) = Inr bech32"
    using assms(3) by (rule bech32_installed_fresh)
  have reached: "\<And>config ops. \<exists>this'.
      initBech32Encoder env (run (constructor config) (map (Pair env) ops)) = (Inr bech32, this')"
  proof -
    fix config ops
    have "fst (initBech32Encoder env (run (constructor config) (map (Pair env) ops))) = Inr bech32"
      by (simp only: initBech32Encoder_reached fresh)
    then show "\<exists>this'.
      initBech32Encoder env (run (constructor config) (map (Pair env) ops)) = (Inr bech32, this')"
      by (cases "initBech32Encoder env (run (constructor config) (map (Pair env) ops))") simp
  qed
  obtain w where w: "bech32_toWords (Buffer_from_hex (slice (trim ?s) 4)) = Inr w"
    using bech32_toWords_result by blast
  obtain this0 where "initBech32Encoder env (constructor default_config) = (Inr bech32, this0)"
    using reached [of default_config "[]"] by auto
  from cborHexToLucidPrivateKey_succeeds [OF this s1 s2 s3]
  obtain t where t: "bech32_encode (js ''ed25519_sk'') w = Inr (js ''ed25519_sk'' @ t)"
    using w by auto
  have "fst (cborHexToLucidPrivateKey env (run (constructor config) (map (Pair env) ops))
               (String ?s)) = Inr (js ''ed25519_sk'' @ t)" for config ops
  proof -
    obtain this' where
      "initBech32Encoder env (run (constructor config) (map (Pair env) ops)) = (Inr bech32, this')"
      using reached by blast
    from cborHexToLucidPrivateKey_succeeds [OF this s1 s2 s3] t w show ?thesis by auto
  qed
  then show ?thesis using startsWith_append by blast
qed

theorem tagged_key_is_encoded_deterministically_witness:
  "length (replicate 64 (0x61 :: jschar)) = 64 \<and>
   list_all is_hex_digit (replicate 64 0x61) \<and>
   bech32_installed (single_file_env [] []) \<and>
   (\<exists>key. startsWith key (js ''ed25519_sk'') \<and>
      fst (cborHexToLucidPrivateKey (single_file_env [] []) (constructor default_config)
             (String (js ''5820'' @ replicate 64 0x61))) = Inr key \<and>
      fst (cborHexToLucidPrivateKey (single_file_env [] [])
             (run (constructor default_config)
                [(single_file_env [] [],
                  CborHexToLucidPrivateKey (String (js ''5820'' @ replicate 64 0x61)))])
             (String (js ''5820'' @ replicate 64 0x61))) = Inr key)"
proof -
  have 1: "length (replicate 64 (0x61 :: jschar)) = 64" by simp
  have 2: "list_all is_hex_digit (replicate 64 0x61)"
    by (simp add: list_all_iff is_hex_digit_def)
  have 3: "bech32_installed (single_file_env [] [])"
    by (simp add: bech32_installed_def single_file_env_def)
  obtain key where k: "startsWith key (js ''ed25519_sk'')"
    "\<And>config ops.
       fst (cborHexToLucidPrivateKey (single_file_env [] [])
              (run (constructor config) (map (Pair (single_file_env [] [])) ops))
              (String (js ''5820'' @ replicate 64 0x61))) = Inr key"
    using tagged_key_is_encoded_deterministically [OF 1 2 3] by blast
  show ?thesis
    using 1 2 3 k(1) k(2) [of default_config "[]"]
      k(2) [of default_config "[CborHexToLucidPrivateKey (String (js ''5820'' @ replicate 64 0x61))]"]
    by auto
qed

text \<open>
  C6.  The checks of \<open>cborHexToLucidPrivateKey\<close> in their order: the failure is an
  \<open>InvalidInputError\<close> exactly when the input is not a string that is not empty; for such
  a string it is an \<open>InvalidPrefixError\<close> exactly when the trimmed text does not start
  with \<open>5820\<close>; for a text with the tag it is an \<open>InvalidLengthError\<close> exactly when
  the rest is not 64 long, and the error then carries 64 and the length of the rest.
\<close>

theorem validation_order:
  "(fst (cborHexToLucidPrivateKey env this cborHex) =
      Inl (Wrapped (js ''Error converting CBOR hex to Lucid private key: '') InvalidInputError)
    \<longleftrightarrow> \<not> (\<exists>s. cborHex = String s \<and> s \<noteq> [])) \<and>
   (s \<noteq> [] \<longrightarrow>
      (fst (cborHexToLucidPrivateKey env this (String s)) =
         Inl (Wrapped (js ''Error converting CBOR hex to Lucid private key: '') InvalidPrefixError)
       \<longleftrightarrow> \<not> startsWith (trim s) (js ''5820''))) \<and>
   (s \<noteq> [] \<and> startsWith (trim s) (js ''5820'') \<longrightarrow>
      (fst (cborHexToLucidPrivateKey env this (String s)) =
         Inl (Wrapped (js ''Error converting CBOR hex to Lucid private key: '')
                (InvalidLengthError expected actual))
       \<longleftrightarrow> expected = 64 \<and> actual = length (slice (trim s) 4) \<and> actual \<noteq> 64))"
proof (intro conjI impI)
  show "(fst (cborHexToLucidPrivateKey env this cborHex) =
      Inl (Wrapped (js ''Error converting CBOR hex to Lucid private key: '') InvalidInputError))
    \<longleftrightarrow> (\<not> (\<exists>s. cborHex = String s \<and> s \<noteq> []))"
  proof (cases "\<exists>s. cborHex = String s \<and> s \<noteq> []")
    case False
    then show ?thesis by (simp add: cborHexToLucidPrivateKey_invalid_input)
  next
    case True
    then obtain t where t: "cborHex = String t" "t \<noteq> []" by auto
    show ?thesis
    proof (cases "startsWith (trim t) (js ''5820'')")
      case False
      then show ?thesis using t True by (simp add: cborHexToLucidPrivateKey_invalid_prefix)
    next
      case sw: True
      show ?thesis
      proof (cases "length (slice (trim t) 4) = 64")
        case False
        then show ?thesis using t True sw by (simp add: cborHexToLucidPrivateKey_invalid_length)
      next
        case len: True
        show ?thesis
          using t sw len cborHexToLucidPrivateKey_encoding_error [of t env this]
          by auto
      qed
    qed
  qed
next
  assume s: "s \<noteq> []"
  show "(fst (cborHexToLucidPrivateKey env this (String s)) =
         Inl (Wrapped (js ''Error converting CBOR hex to Lucid private key: '') InvalidPrefixError))
       \<longleftrightarrow> (\<not> startsWith (trim s) (js ''5820''))"
  proof (cases "startsWith (trim s) (js ''5820'')")
    case False
    then show ?thesis using s by (simp add: cborHexToLucidPrivateKey_invalid_prefix)
  next
    case sw: True
    show ?thesis
    proof (cases "length (slice (trim s) 4) = 64")
      case False
      then show ?thesis using s sw by (simp add: cborHexToLucidPrivateKey_invalid_length)
    next
      case len: True
      show ?thesis
        using s sw len cborHexToLucidPrivateKey_encoding_error [of s env this]
        by auto
    qed
  qed
next
  assume a: "s \<noteq> [] \<and> startsWith (trim s) (js ''5820'')"
  show "(fst (cborHexToLucidPrivateKey env this (String s)) =
         Inl (Wrapped (js ''Error converting CBOR hex to Lucid private key: '')
                (InvalidLengthError expected actual)))
       \<longleftrightarrow> (expected = 64 \<and> actual = length (slice (trim s) 4) \<and> actual \<noteq> 64)"
  proof (cases "length (slice (trim s) 4) = 64")
    case False
    then show ?thesis using a by (auto simp: cborHexToLucidPrivateKey_invalid_length)
  next
    case len: True
    show ?thesis
      using a len cborHexToLucidPrivateKey_encoding_error [of s env this]
      by auto
  qed
qed

theorem validation_order_witness:
  "fst (cborHexToLucidPrivateKey (single_file_env [] []) (constructor default_config) (String [])) =
     Inl (Wrapped (js ''Error converting CBOR hex to Lucid private key: '') InvalidInputError) \<and>
   fst (cborHexToLucidPrivateKey (single_file_env [] []) (constructor default_config) Undefined) =
     Inl (Wrapped (js ''Error converting CBOR hex to Lucid private key: '') InvalidInputError) \<and>
   fst (cborHexToLucidPrivateKey (single_file_env [] []) (constructor default_config)
          (String (js ''abcd''))) =
     Inl (Wrapped (js ''Error converting CBOR hex to Lucid private key: '') InvalidPrefixError) \<and>
   fst (cborHexToLucidPrivateKey (single_file_env [] []) (constructor default_config)
          (String (js ''5820aaaaaaaa''))) =
     Inl (Wrapped (js ''Error converting CBOR hex to Lucid private key: '')
            (InvalidLengthError 64 8)) \<and>
   message (Wrapped (js ''Error converting CBOR hex to Lucid private key: '')
              (InvalidLengthError 64 8)) =
     js ''Error converting CBOR hex to Lucid private key: Invalid private key length: expected 64 characters, got 8''"
proof -
  let ?env = "single_file_env [] []" and ?conv = "constructor default_config"
  have a: "js ''abcd'' \<noteq> []" "\<not> startsWith (trim (js ''abcd'')) (js ''5820'')"
    by code_simp+
  have b: "js ''5820aaaaaaaa'' \<noteq> [] \<and> startsWith (trim (js ''5820aaaaaaaa'')) (js ''5820'')"
    "length (slice (trim (js ''5820aaaaaaaa'')) 4) = 8"
    by code_simp+
  have m: "message (Wrapped (js ''Error converting CBOR hex to Lucid private key: '')
              (InvalidLengthError 64 8)) =
     js ''Error converting CBOR hex to Lucid private key: Invalid private key length: expected 64 characters, got 8''"
    by code_simp
  show ?thesis
    using validation_order [of ?env ?conv "String []" "js ''abcd''" 64 8]
      validation_order [of ?env ?conv Undefined "js ''5820aaaaaaaa''" 64 8] a b m
    by simp
qed

text \<open>
  C9.  The result of \<open>cborHexToLucidPrivateKey\<close> is the same for two instances of any
  two configurations, whatever calls each has served in this environment, and
  \<open>CardanoUtils.cborHexToLucidPrivateKey\<close> gives that result too.
\<close>

theorem configuration_independence:
  "fst (cborHexToLucidPrivateKey env (run (constructor config1) (map (Pair env) ops1)) cborHex) =
   fst (cborHexToLucidPrivateKey env (run (constructor config2) (map (Pair env) ops2)) cborHex) \<and>
   CardanoUtils_cborHexToLucidPrivateKey env cborHex =
   fst (cborHexToLucidPrivateKey env (run (constructor config1) (map (Pair env) ops1)) cborHex)"
proof -
  have "fst (initBech32Encoder env (run (constructor config1) (map (Pair env) ops1))) =
        fst (initBech32Encoder env (run (constructor config2) (map (Pair env) ops2)))"
    by (simp only: initBech32Encoder_reached)
  moreover have "fst (initBech32Encoder env (constructor default_config)) =
        fst (initBech32Encoder env (run (constructor config1) (map (Pair env) ops1)))"
    by (simp only: initBech32Encoder_reached)
  ultimately show ?thesis
    unfolding CardanoUtils_cborHexToLucidPrivateKey_def Let_def
    using cborHexToLucidPrivateKey_result by blast
qed

section \<open>The orchestration and the frame\<close>

text \<open>
  C7.  When reader and encoder both succeed, \<open>onchainToOffchainPrivateKey\<close> returns
  what the encoder returns on the value read (result and instance); when the encoder
  fails, or the reader, it fails with that error wrapped once more.
\<close>

theorem onchain_composition:
  "(readPrivateKeyFile env keyPath = Inr cborHex \<and>
      fst (cborHexToLucidPrivateKey env this cborHex) = Inr key \<longrightarrow>
      onchainToOffchainPrivateKey env this keyPath = cborHexToLucidPrivateKey env this cborHex) \<and>
   (readPrivateKeyFile env keyPath = Inr cborHex \<and>
      fst (cborHexToLucidPrivateKey env this cborHex) = Inl e \<longrightarrow>
      onchainToOffchainPrivateKey env this keyPath =
        (Inl (Wrapped (js ''Error converting onchain to offchain private key: '') e),
         snd (cborHexToLucidPrivateKey env this cborHex))) \<and>
   (readPrivateKeyFile env keyPath = Inl e \<longrightarrow>
      onchainToOffchainPrivateKey env this keyPath =
        (Inl (Wrapped (js ''Error converting onchain to offchain private key: '') e), this))"
  by (auto simp: onchainToOffchainPrivateKey_unfold rethrow_def prod_eq_iff)

theorem onchain_composition_witness:
  "readPrivateKeyFile
     (single_file_env (js ''/path/key.json'')
        (js ''{\"cborHex\":\"5820'' @ replicate 64 0x65 @ js ''\"}''))
     (js ''/path/key.json'') = Inr (String (js ''5820'' @ replicate 64 0x65)) \<and>
   \<not> isl (fst (cborHexToLucidPrivateKey
     (single_file_env (js ''/path/key.json'')
        (js ''{\"cborHex\":\"5820'' @ replicate 64 0x65 @ js ''\"}''))
     (constructor default_config) (String (js ''5820'' @ replicate 64 0x65)))) \<and>
   onchainToOffchainPrivateKey
     (single_file_env (js ''/path/key.json'')
        (js ''{\"cborHex\":\"5820'' @ replicate 64 0x65 @ js ''\"}''))
     (constructor default_config) (js ''/path/key.json'') =
   cborHexToLucidPrivateKey
     (single_file_env (js ''/path/key.json'')
        (js ''{\"cborHex\":\"5820'' @ replicate 64 0x65 @ js ''\"}''))
     (constructor default_config) (String (js ''5820'' @ replicate 64 0x65)) \<and>
   readPrivateKeyFile (single_file_env (js ''/path/key.txt'') (js ''abcd'')) (js ''/path/key.txt'') =
     Inr (String (js ''abcd'')) \<and>
   onchainToOffchainPrivateKey (single_file_env (js ''/path/key.txt'') (js ''abcd''))
     (constructor default_config) (js ''/path/key.txt'') =
     (Inl (Wrapped (js ''Error converting onchain to offchain private key: '')
             (Wrapped (js ''Error converting CBOR hex to Lucid private key: '')
                InvalidPrefixError)),
      constructor default_config) \<and>
   onchainToOffchainPrivateKey (single_file_env (js ''/path/key.txt'') (js ''abcd''))
     (constructor default_config) (js ''/no.key'') =
     (Inl (Wrapped (js ''Error converting onchain to offchain private key: '')
             (Wrapped (js ''Error reading private key file: '')
                (FileNotFoundError (js ''/no.key'')))),
      constructor default_config)"
proof -
  let ?env = "single_file_env (js ''/path/key.json'')
        (js ''{\"cborHex\":\"5820'' @ replicate 64 0x65 @ js ''\"}'')"
  let ?env2 = "single_file_env (js ''/path/key.txt'') (js ''abcd'')"
  let ?conv = "constructor default_config"
  let ?hex = "js ''5820'' @ replicate 64 (0x65 :: jschar)"
  have r: "readPrivateKeyFile ?env (js ''/path/key.json'') = Inr (String ?hex)"
    by code_simp
  have "bech32_installed ?env" by (simp add: bech32_installed_def single_file_env_def)
  from tagged_key_key [OF _ _ this, of "replicate 64 0x65" default_config]
  obtain key where k: "fst (cborHexToLucidPrivateKey ?env ?conv (String ?hex)) = Inr key"
    by (auto simp: list_all_iff is_hex_digit_def)
  have r2: "readPrivateKeyFile ?env2 (js ''/path/key.txt'') = Inr (String (js ''abcd''))"
    by code_simp
  have c2: "cborHexToLucidPrivateKey ?env2 ?conv (String (js ''abcd'')) =
      (Inl (Wrapped (js ''Error converting CBOR hex to Lucid private key: '') InvalidPrefixError),
       ?conv)"
  proof (rule cborHexToLucidPrivateKey_invalid_prefix)
    show "js ''abcd'' \<noteq> []" by code_simp
    show "\<not> startsWith (trim (js ''abcd'')) (js ''5820'')" by code_simp
  qed
  have r3: "readPrivateKeyFile ?env2 (js ''/no.key'') =
      Inl (Wrapped (js ''Error reading private key file: '') (FileNotFoundError (js ''/no.key'')))"
    by code_simp
  show ?thesis
    using r k r2 c2 r3
      onchain_composition [of ?env "js ''/path/key.json''" "String ?hex" ?conv key]
      onchain_composition [of ?env2 "js ''/path/key.txt''" "String (js ''abcd'')" ?conv _
         "Wrapped (js ''Error converting CBOR hex to Lucid private key: '') InvalidPrefixError"]
      onchain_composition [of ?env2 "js ''/no.key''" _ ?conv _
         "Wrapped (js ''Error reading private key file: '') (FileNotFoundError (js ''/no.key''))"]
    by simp
qed

text \<open>
  C10.  Over any sequence of calls, each run to its end in any environment, the three
  configuration fields keep their values, and an encoder, once stored in
  \<open>bech32Encoder\<close>, stays the one stored: the field changes only while it holds no
  encoder.
\<close>

theorem configuration_frame:
  "network (run this calls) = network this \<and>
   blockfrostApiUrl (run this calls) = blockfrostApiUrl this \<and>
   blockfrostApiKey (run this calls) = blockfrostApiKey this \<and>
   (bech32Encoder this = HEncoder e \<longrightarrow> bech32Encoder (run this calls) = HEncoder e)"
proof (induction calls arbitrary: this)
  case Nil
  show ?case by simp
next
  case (Cons call calls)
  obtain env op where call: "call = (env, op)" by (cases call)
  show ?case
    using Cons.IH [of "after env this op"] after_frame [of env this op e]
    by (simp add: call)
qed

theorem configuration_frame_witness:
  "bech32Encoder ((constructor default_config)\<lparr>bech32Encoder := HEncoder bech32\<rparr>) = HEncoder bech32 \<and>
   bech32Encoder (run ((constructor default_config)\<lparr>bech32Encoder := HEncoder bech32\<rparr>)
      [(single_file_env [] [], CborHexToLucidPrivateKey (String (js ''5820''))),
       (single_file_env [] [], GetWalletUtxos (js ''/no.key''))]) = HEncoder bech32 \<and>
   network (run ((constructor default_config)\<lparr>bech32Encoder := HEncoder bech32\<rparr>)
      [(single_file_env [] [], CborHexToLucidPrivateKey (String (js ''5820''))),
       (single_file_env [] [], GetWalletUtxos (js ''/no.key''))]) = Mainnet"
  using configuration_frame [of "(constructor default_config)\<lparr>bech32Encoder := HEncoder bech32\<rparr>"
      "[(single_file_env [] [], CborHexToLucidPrivateKey (String (js ''5820''))),
        (single_file_env [] [], GetWalletUtxos (js ''/no.key''))]" bech32]
  by (simp add: constructor_def default_config_def)

end
